theory Spec2Isabelle
  imports Complex_Main "HOL-Library.Multiset"
begin

section \<open>Data model (types.ts)\<close>

text \<open>
  \<^verbatim>\<open>SortStats\<close> are the four counters of a run.  The three operation counters only ever
  receive integer increments in the built-in variants and are integers here; \<^verbatim>\<open>time\<close>
  holds a difference of \<^verbatim>\<open>performance.now()\<close> readings (milliseconds), taken as exact
  reals.  Array elements are integers: the arrays the application builds are
  permutations of \<^verbatim>\<open>1..size\<close>.  Floating-point values, \<^verbatim>\<open>NaN\<close> and \<^verbatim>\<open>undefined\<close> cells
  are outside this model.
\<close>

record SortStats =
  comparisons :: int
  swaps :: int
  writes :: int
  time :: real

record Highlight =
  comparing :: "nat list option"
  swapping :: "nat list option"

text \<open>\<^verbatim>\<open>Partial<SortStats>\<close>: each field present or absent.\<close>

record StatUpdate =
  u_comparisons :: "int option"
  u_swaps :: "int option"
  u_writes :: "int option"
  u_time :: "real option"

datatype AlgorithmKey =
  bubbleSort | selectionSort | insertionSort | quickSort | mergeSort
  | heapSort | radixSort | bucketSort | bogoSort | userCode

text \<open>
  A thrown JavaScript value is either an \<^verbatim>\<open>Error\<close> instance, with its message and, when
  the runtime provides one, its \<^verbatim>\<open>stack\<close> text, or any other value (\<^verbatim>\<open>e instanceof Error\<close>
  false).
\<close>

datatype js_thrown = Error string "string option" | NonError

fun message :: "js_thrown \<Rightarrow> string" where
  "message (Error m st) = m"
| "message NonError = []"

text \<open>
  An \<^verbatim>\<open>Error\<close> instance is an object, and user code can redefine its \<^verbatim>\<open>message\<close> as a
  getter that throws.  \<open>Tampered v\<close> is an \<^verbatim>\<open>Error\<close> instance of which reading \<^verbatim>\<open>e.message\<close>
  throws \<open>v\<close>, a value of the first kind or again such an object.
\<close>

datatype tampered = Tampered "js_thrown + tampered"

section \<open>The store\<close>

text \<open>
  Arrays are objects with identity.  \<open>Initial\<close> is the caller's array handed to the
  runner, \<open>Working\<close> is the copy \<^verbatim>\<open>arr\<close> the runner allocates with \<^verbatim>\<open>[...initialArray]\<close>, and
  \<open>Snapshot k\<close> is the object allocated by the \<open>k\<close>-th evaluation of \<^verbatim>\<open>[...arr]\<close>.
\<close>

datatype loc = Initial | Working | Snapshot nat

text \<open>
  One invocation of the external callback: the array object passed, its contents on
  entry and on return, the contents of the working array on entry, and the other
  arguments.
\<close>

record call =
  c_arr :: loc
  c_contents :: "int list"
  c_left :: "int list"
  c_working :: "int list"
  c_highlights :: Highlight
  c_stats :: SortStats
  c_error :: "string option"

text \<open>
  The state of one run.  \<open>heap\<close> holds the array objects, \<open>snapshots\<close> counts the
  snapshot objects allocated so far, \<open>stats\<close>, \<open>pausedTime\<close> and \<open>pauseStartTime\<close> are the
  runner's local variables of the same names, \<open>host\<close> is the state of the external
  collaborator that owns the callback, \<open>calls\<close> is the sequence of callback invocations
  made so far, \<open>pauses\<close> is the sequence of pauses sat out so far (the clock reading at
  the start and at the end of each), and \<open>tick\<close> counts the interactions with the
  environment (clock readings, awaits, random draws), so that each one can receive its
  own answer.
\<close>

record 'h engine =
  heap :: "loc \<Rightarrow> int list"
  snapshots :: nat
  stats :: SortStats
  pausedTime :: real
  pauseStartTime :: real
  host :: 'h
  calls :: "call list"
  pauses :: "(real \<times> real) list"
  tick :: nat

text \<open>
  How a step function ends: it returns, or it throws a value whose message can be read
  or one whose message cannot; in each case in some state.
  \<open>Unmodelled\<close> stands for a run that goes on with a value in the working array that is
  not an integer (such as \<^verbatim>\<open>undefined\<close> read from a hole of an array), which the store
  cannot hold; nothing is stated about such a run.
\<close>

datatype 's result = Returned 's | Threw js_thrown 's | ThrewTampered tampered 's | Unmodelled

text \<open>What escapes when the message of a tampered \<^verbatim>\<open>Error\<close> is read in state \<open>s\<close>.\<close>

fun escapes :: "js_thrown + tampered \<Rightarrow> 's \<Rightarrow> 's result" where
  "escapes (Inl t) s = Threw t s"
| "escapes (Inr u) s = ThrewTampered u s"

text \<open>
  What evaluating \<^verbatim>\<open>new Function('return ' + userCode)()\<close> can do: throw, or yield a
  value that is callable or not.  A callable is a step function; it may not return at
  all (\<open>None\<close>).
\<close>

datatype 'h js_value = Callable "'h engine \<Rightarrow> 'h engine result option" | NotCallable

datatype 'h evaluation =
  EvalThrows js_thrown | EvalThrowsTampered tampered | EvalYields "'h js_value"

text \<open>
  The environment of a run: the external callback (which may change the host's state and
  may mutate the array object it receives; it returns that object's new contents), what
  the host does on its own while the runner is suspended in an \<^verbatim>\<open>await\<close>, the clock, the
  pause predicate, the delay query, the random number generator and the JavaScript
  evaluator.  Every query takes the current \<open>tick\<close>.

  \<open>pausePolls env t\<close> is the number of times \<^verbatim>\<open>getIsPaused()\<close> answers true in the loop
  \<^verbatim>\<open>while (getIsPaused()) await sleep(50)\<close> entered at tick \<open>t\<close>; \<^verbatim>\<open>getIsPaused()\<close> itself is
  \<open>0 < pausePolls env t\<close>.  A pause that never ends is not representable: the claims
  below are about runs that end.  The callback follows its contract and does not throw,
  and it does not write to the counters object it is handed.
  \<open>random env t\<close> stands for \<^verbatim>\<open>Math.floor(Math.random() * (i + 1))\<close> for the draw made at tick
  \<open>t\<close>, reduced modulo \<open>i + 1\<close> where it is used, since that expression lies in \<open>0..i\<close>.
  \<open>roundDouble env\<close> is the rounding of the exact result of an arithmetic operation to a
  double; it is used where the source computes with fractions (bucket sort).  Operations
  on integers are exact below \<open>2^53\<close> and are written as such.
\<close>

record 'h env =
  updateCallback :: "int list \<Rightarrow> Highlight \<Rightarrow> SortStats \<Rightarrow> string option \<Rightarrow> 'h \<Rightarrow> 'h \<times> int list"
  hostAsync :: "nat \<Rightarrow> 'h \<Rightarrow> 'h"
  now :: "nat \<Rightarrow> real"
  pausePolls :: "nat \<Rightarrow> nat"
  getDelay :: "nat \<Rightarrow> real"
  random :: "nat \<Rightarrow> nat"
  evalUserCode :: "string \<Rightarrow> 'h evaluation"
  roundDouble :: "real \<Rightarrow> real"

abbreviation arr :: "'h engine \<Rightarrow> int list" where
  "arr s \<equiv> heap s Working"

definition set_arr :: "int list \<Rightarrow> 'h engine \<Rightarrow> 'h engine" where
  "set_arr xs s = s\<lparr>heap := (heap s)(Working := xs)\<rparr>"

text \<open>\<^verbatim>\<open>[arr[i], arr[j]] = [arr[j], arr[i]]\<close>: the right-hand side is read first.\<close>

definition swap :: "nat \<Rightarrow> nat \<Rightarrow> 'h engine \<Rightarrow> 'h engine" where
  "swap i j s = set_arr ((arr s)[i := arr s ! j, j := arr s ! i]) s"

definition inc_comparisons :: "'h engine \<Rightarrow> 'h engine" where
  "inc_comparisons s = s\<lparr>stats := (stats s)\<lparr>comparisons := comparisons (stats s) + 1\<rparr>\<rparr>"

definition inc_swaps :: "'h engine \<Rightarrow> 'h engine" where
  "inc_swaps s = s\<lparr>stats := (stats s)\<lparr>swaps := swaps (stats s) + 1\<rparr>\<rparr>"

definition add_writes :: "int \<Rightarrow> 'h engine \<Rightarrow> 'h engine" where
  "add_writes k s = s\<lparr>stats := (stats s)\<lparr>writes := writes (stats s) + k\<rparr>\<rparr>"

section \<open>The instrumentation channel (sortingService.ts, getAlgorithmRunner)\<close>

definition noStatUpdate :: StatUpdate where
  "noStatUpdate = \<lparr>u_comparisons = None, u_swaps = None, u_writes = None, u_time = None\<rparr>"

text \<open>\<^verbatim>\<open>Object.assign(stats, statUpdate)\<close>\<close>

definition assign :: "StatUpdate \<Rightarrow> SortStats \<Rightarrow> SortStats" where
  "assign u st =
     \<lparr>comparisons = (case u_comparisons u of None \<Rightarrow> comparisons st | Some v \<Rightarrow> v),
      swaps = (case u_swaps u of None \<Rightarrow> swaps st | Some v \<Rightarrow> v),
      writes = (case u_writes u of None \<Rightarrow> writes st | Some v \<Rightarrow> v),
      time = (case u_time u of None \<Rightarrow> time st | Some v \<Rightarrow> v)\<rparr>"

text \<open>\<^verbatim>\<open>[...arr]\<close>: a new array object with the contents of the working array.\<close>

definition copyArr :: "'h engine \<Rightarrow> loc \<times> 'h engine" where
  "copyArr s =
     (Snapshot (snapshots s),
      s\<lparr>heap := (heap s)(Snapshot (snapshots s) := arr s), snapshots := snapshots s + 1\<rparr>)"

text \<open>
  \<^verbatim>\<open>await updateCallback(a, highlights, st, errorMessage)\<close>: the call is recorded with the
  contents the callee finds in \<open>a\<close>; the callee's writes go to that object and to the
  host's state; the host then runs on its own until the runner resumes.
\<close>

definition invoke :: "'h env \<Rightarrow> loc \<Rightarrow> Highlight \<Rightarrow> SortStats \<Rightarrow> string option \<Rightarrow> 'h engine \<Rightarrow> 'h engine" where
  "invoke env a hl st err s =
     (let (h', xs') = updateCallback env (heap s a) hl st err (host s)
      in s\<lparr>heap := (heap s)(a := xs'),
           host := hostAsync env (tick s) h',
           calls := calls s @ [\<lparr>c_arr = a, c_contents = heap s a, c_left = xs',
                                c_working = arr s, c_highlights = hl, c_stats = st,
                                c_error = err\<rparr>],
           tick := tick s + 1\<rparr>)"

text \<open>\<^verbatim>\<open>await sleep(ms)\<close>: only the host moves.\<close>

definition sleep :: "'h env \<Rightarrow> 'h engine \<Rightarrow> 'h engine" where
  "sleep env s = s\<lparr>host := hostAsync env (tick s) (host s), tick := tick s + 1\<rparr>"

text \<open>\<^verbatim>\<open>performance.now()\<close>\<close>

definition readClock :: "'h env \<Rightarrow> 'h engine \<Rightarrow> real \<times> 'h engine" where
  "readClock env s = (now env (tick s), s\<lparr>tick := tick s + 1\<rparr>)"

definition pause :: "'h env \<Rightarrow> 'h engine \<Rightarrow> 'h engine" where
  "pause env s =
     (let k = pausePolls env (tick s) in
      if 0 < k then
        let (t0, s1) = readClock env s;
            s2 = s1\<lparr>pauseStartTime := t0\<rparr>;
            s3 = (sleep env ^^ k) s2;
            (t1, s4) = readClock env s3
        in s4\<lparr>pausedTime := pausedTime s4 + (t1 - pauseStartTime s4),
              pauses := pauses s4 @ [(pauseStartTime s4, t1)]\<rparr>
      else s)"

definition update :: "'h env \<Rightarrow> Highlight \<Rightarrow> StatUpdate \<Rightarrow> 'h engine \<Rightarrow> 'h engine" where
  "update env highlights statUpdate s =
     (let s1 = s\<lparr>stats := assign statUpdate (stats s)\<rparr>;
          (a, s2) = copyArr s1;
          s3 = invoke env a highlights (stats s2) None s2;
          s4 = pause env s3;
          delay = getDelay env (tick s4)
      in if 0 < delay then sleep env s4 else s4)"

abbreviation emitComparing :: "'h env \<Rightarrow> nat list \<Rightarrow> 'h engine \<Rightarrow> 'h engine" where
  "emitComparing env is \<equiv> update env \<lparr>comparing = Some is, swapping = None\<rparr> noStatUpdate"

abbreviation emitSwapping :: "'h env \<Rightarrow> nat list \<Rightarrow> 'h engine \<Rightarrow> 'h engine" where
  "emitSwapping env is \<equiv> update env \<lparr>comparing = None, swapping = Some is\<rparr> noStatUpdate"

abbreviation emitNothing :: "'h env \<Rightarrow> 'h engine \<Rightarrow> 'h engine" where
  "emitNothing env \<equiv> update env \<lparr>comparing = None, swapping = None\<rparr> noStatUpdate"

subsection \<open>What the primitive operations change\<close>

lemma heap_set_arr [simp]: "heap (set_arr xs s) = (heap s)(Working := xs)"
  and stats_set_arr [simp]: "stats (set_arr xs s) = stats s"
  and calls_set_arr [simp]: "calls (set_arr xs s) = calls s"
  and snapshots_set_arr [simp]: "snapshots (set_arr xs s) = snapshots s"
  and host_set_arr [simp]: "host (set_arr xs s) = host s"
  and tick_set_arr [simp]: "tick (set_arr xs s) = tick s"
  and pausedTime_set_arr [simp]: "pausedTime (set_arr xs s) = pausedTime s"
  and pauses_set_arr [simp]: "pauses (set_arr xs s) = pauses s"
  by (simp_all add: set_arr_def)

lemma heap_swap [simp]:
    "heap (swap i j s) = (heap s)(Working := (arr s)[i := arr s ! j, j := arr s ! i])"
  and stats_swap [simp]: "stats (swap i j s) = stats s"
  and calls_swap [simp]: "calls (swap i j s) = calls s"
  and snapshots_swap [simp]: "snapshots (swap i j s) = snapshots s"
  and host_swap [simp]: "host (swap i j s) = host s"
  and tick_swap [simp]: "tick (swap i j s) = tick s"
  and pausedTime_swap [simp]: "pausedTime (swap i j s) = pausedTime s"
  and pauses_swap [simp]: "pauses (swap i j s) = pauses s"
  by (simp_all add: swap_def)

lemma heap_inc_comparisons [simp]: "heap (inc_comparisons s) = heap s"
  and comparisons_inc_comparisons [simp]:
    "comparisons (stats (inc_comparisons s)) = comparisons (stats s) + 1"
  and swaps_inc_comparisons [simp]: "swaps (stats (inc_comparisons s)) = swaps (stats s)"
  and writes_inc_comparisons [simp]: "writes (stats (inc_comparisons s)) = writes (stats s)"
  and time_inc_comparisons [simp]: "time (stats (inc_comparisons s)) = time (stats s)"
  and calls_inc_comparisons [simp]: "calls (inc_comparisons s) = calls s"
  and snapshots_inc_comparisons [simp]: "snapshots (inc_comparisons s) = snapshots s"
  and host_inc_comparisons [simp]: "host (inc_comparisons s) = host s"
  and tick_inc_comparisons [simp]: "tick (inc_comparisons s) = tick s"
  and pausedTime_inc_comparisons [simp]: "pausedTime (inc_comparisons s) = pausedTime s"
  and pauses_inc_comparisons [simp]: "pauses (inc_comparisons s) = pauses s"
  by (simp_all add: inc_comparisons_def)

lemma heap_inc_swaps [simp]: "heap (inc_swaps s) = heap s"
  and comparisons_inc_swaps [simp]: "comparisons (stats (inc_swaps s)) = comparisons (stats s)"
  and swaps_inc_swaps [simp]: "swaps (stats (inc_swaps s)) = swaps (stats s) + 1"
  and writes_inc_swaps [simp]: "writes (stats (inc_swaps s)) = writes (stats s)"
  and time_inc_swaps [simp]: "time (stats (inc_swaps s)) = time (stats s)"
  and calls_inc_swaps [simp]: "calls (inc_swaps s) = calls s"
  and snapshots_inc_swaps [simp]: "snapshots (inc_swaps s) = snapshots s"
  and host_inc_swaps [simp]: "host (inc_swaps s) = host s"
  and tick_inc_swaps [simp]: "tick (inc_swaps s) = tick s"
  and pausedTime_inc_swaps [simp]: "pausedTime (inc_swaps s) = pausedTime s"
  and pauses_inc_swaps [simp]: "pauses (inc_swaps s) = pauses s"
  by (simp_all add: inc_swaps_def)

lemma heap_add_writes [simp]: "heap (add_writes k s) = heap s"
  and comparisons_add_writes [simp]: "comparisons (stats (add_writes k s)) = comparisons (stats s)"
  and swaps_add_writes [simp]: "swaps (stats (add_writes k s)) = swaps (stats s)"
  and writes_add_writes [simp]: "writes (stats (add_writes k s)) = writes (stats s) + k"
  and time_add_writes [simp]: "time (stats (add_writes k s)) = time (stats s)"
  and calls_add_writes [simp]: "calls (add_writes k s) = calls s"
  and snapshots_add_writes [simp]: "snapshots (add_writes k s) = snapshots s"
  and host_add_writes [simp]: "host (add_writes k s) = host s"
  and tick_add_writes [simp]: "tick (add_writes k s) = tick s"
  and pausedTime_add_writes [simp]: "pausedTime (add_writes k s) = pausedTime s"
  and pauses_add_writes [simp]: "pauses (add_writes k s) = pauses s"
  by (simp_all add: add_writes_def)

lemma assign_noStatUpdate [simp]: "assign noStatUpdate st = st"
  by (simp add: assign_def noStatUpdate_def)

lemma sleeps_frame:
  "heap ((sleep env ^^ k) s) = heap s \<and> stats ((sleep env ^^ k) s) = stats s
   \<and> calls ((sleep env ^^ k) s) = calls s \<and> snapshots ((sleep env ^^ k) s) = snapshots s
   \<and> pausedTime ((sleep env ^^ k) s) = pausedTime s
   \<and> pauseStartTime ((sleep env ^^ k) s) = pauseStartTime s
   \<and> pauses ((sleep env ^^ k) s) = pauses s
   \<and> tick ((sleep env ^^ k) s) = tick s + k"
  by (induction k) (simp_all add: sleep_def)

lemma pause_frame:
  "heap (pause env s) = heap s \<and> stats (pause env s) = stats s
   \<and> calls (pause env s) = calls s \<and> snapshots (pause env s) = snapshots s"
  by (simp add: pause_def Let_def readClock_def sleeps_frame split: prod.splits)

text \<open>
  An \<^verbatim>\<open>update\<close> leaves the working array alone: the callback is handed a new object.
  Without a \<^verbatim>\<open>statUpdate\<close> it leaves the counters alone as well.
\<close>

lemma arr_update [simp]: "arr (update env hl su s) = arr s"
  by (simp add: update_def copyArr_def invoke_def Let_def sleep_def pause_frame
      split: prod.splits)

lemma stats_update [simp]: "stats (update env hl su s) = assign su (stats s)"
  by (simp add: update_def copyArr_def invoke_def Let_def sleep_def pause_frame
      split: prod.splits)

section \<open>Algorithm variants\<close>

subsection \<open>bubbleSortFunc\<close>

text \<open>
  The \<^verbatim>\<open>for\<close> loop of one pass, from index \<open>i\<close>; \<^verbatim>\<open>i < n - 1\<close> is written \<open>i + 1 < n\<close>, which
  is the same test on integers and also right when \<open>n = 0\<close>.
\<close>

function bubble_pass :: "'h env \<Rightarrow> nat \<Rightarrow> nat \<Rightarrow> bool \<Rightarrow> 'h engine \<Rightarrow> bool \<times> 'h engine" where
  "bubble_pass env n i swapped s =
     (if i + 1 < n then
        let s1 = emitComparing env [i, i + 1] (inc_comparisons s) in
        if arr s1 ! i > arr s1 ! (i + 1) then
          let s2 = swap i (i + 1) (add_writes 2 (inc_swaps s1));
              s3 = emitSwapping env [i, i + 1] s2
          in bubble_pass env n (i + 1) True s3
        else bubble_pass env n (i + 1) swapped s1
      else (swapped, s))"
  by pat_completeness auto
termination
  by (relation "measure (\<lambda>(env, n, i, swapped, s). n - i)") auto

declare bubble_pass.simps [simp del]

lemma bubble_pass_swapped:
  "fst (bubble_pass env n i swapped s) \<Longrightarrow> swapped \<or> i + 1 < n"
  by (subst (asm) bubble_pass.simps) (simp split: if_splits)

text \<open>
  The \<^verbatim>\<open>do ... while (swapped)\<close> loop.  \<^verbatim>\<open>n--\<close> is a truncating subtraction here; the loop
  goes on only after a pass that swapped, and such a pass had \<open>2 \<le> n\<close>.
\<close>

function bubble_loop :: "'h env \<Rightarrow> nat \<Rightarrow> 'h engine \<Rightarrow> 'h engine" where
  "bubble_loop env n s =
     (case bubble_pass env n 0 False s of
        (swapped, s') \<Rightarrow> if swapped then bubble_loop env (n - 1) s' else s')"
  by pat_completeness auto
termination
proof (relation "measure (\<lambda>(env, n, s). n)", goal_cases)
  case 1
  show ?case by simp
next
  case (2 env n s x1 x2)
  from 2(1) have "fst (bubble_pass env n 0 False s) = x1" by (metis fst_conv)
  with 2(2) have "fst (bubble_pass env n 0 False s)" by simp
  from bubble_pass_swapped[OF this] show ?case by simp
qed

declare bubble_loop.simps [simp del]

definition bubbleSortFunc :: "'h env \<Rightarrow> 'h engine \<Rightarrow> 'h engine" where
  "bubbleSortFunc env s = bubble_loop env (length (arr s)) s"

subsection \<open>selectionSortFunc\<close>

function selection_scan :: "'h env \<Rightarrow> nat \<Rightarrow> nat \<Rightarrow> nat \<Rightarrow> 'h engine \<Rightarrow> nat \<times> 'h engine" where
  "selection_scan env n j minIdx s =
     (if j < n then
        let s1 = emitComparing env [minIdx, j] (inc_comparisons s) in
        selection_scan env n (j + 1) (if arr s1 ! j < arr s1 ! minIdx then j else minIdx) s1
      else (minIdx, s))"
  by pat_completeness auto
termination
  by (relation "measure (\<lambda>(env, n, j, minIdx, s). n - j)") auto

declare selection_scan.simps [simp del]

function selection_loop :: "'h env \<Rightarrow> nat \<Rightarrow> nat \<Rightarrow> 'h engine \<Rightarrow> 'h engine" where
  "selection_loop env n i s =
     (if i + 1 < n then
        case selection_scan env n (i + 1) i s of
          (minIdx, s1) \<Rightarrow>
            selection_loop env n (i + 1)
              (if minIdx \<noteq> i
               then emitSwapping env [i, minIdx] (swap i minIdx (add_writes 2 (inc_swaps s1)))
               else s1)
      else s)"
  by pat_completeness auto
termination
  by (relation "measure (\<lambda>(env, n, i, s). n - i)") auto

declare selection_loop.simps [simp del]

definition selectionSortFunc :: "'h env \<Rightarrow> 'h engine \<Rightarrow> 'h engine" where
  "selectionSortFunc env s = selection_loop env (length (arr s)) 0 s"

subsection \<open>insertionSortFunc\<close>

text \<open>
  The \<^verbatim>\<open>while (j >= 0 && arr[j] > current)\<close> loop.  The source's \<^verbatim>\<open>j\<close> runs down to \<open>-1\<close>;
  the natural number \<open>k\<close> stands for \<^verbatim>\<open>j + 1\<close>, so \<^verbatim>\<open>j >= 0\<close> is \<open>0 < k\<close>, \<^verbatim>\<open>arr[j]\<close> is
  \<open>arr s ! (k - 1)\<close> and \<^verbatim>\<open>arr[j + 1]\<close> is \<open>arr s ! k\<close>.
\<close>

function insertion_shift :: "'h env \<Rightarrow> int \<Rightarrow> nat \<Rightarrow> 'h engine \<Rightarrow> nat \<times> 'h engine" where
  "insertion_shift env current k s =
     (if 0 < k \<and> arr s ! (k - 1) > current then
        let s1 = add_writes 1 (inc_swaps (inc_comparisons s));
            s2 = set_arr ((arr s1)[k := arr s1 ! (k - 1)]) s1;
            s3 = emitSwapping env [k - 1, k] s2
        in insertion_shift env current (k - 1) s3
      else (k, s))"
  by pat_completeness auto
termination
  by (relation "measure (\<lambda>(env, current, k, s). k)") auto

declare insertion_shift.simps [simp del]

function insertion_loop :: "'h env \<Rightarrow> nat \<Rightarrow> nat \<Rightarrow> 'h engine \<Rightarrow> 'h engine" where
  "insertion_loop env n i s =
     (if i < n then
        let current = arr s ! i;
            s1 = emitComparing env [i] s
        in case insertion_shift env current i s1 of
             (k, s2) \<Rightarrow>
               let s3 = (if 0 < k then inc_comparisons s2 else s2);
                   s4 = add_writes 1 s3;
                   s5 = set_arr ((arr s4)[k := current]) s4
               in insertion_loop env n (i + 1) s5
      else s)"
  by pat_completeness auto
termination
  by (relation "measure (\<lambda>(env, n, i, s). n - i)") auto

declare insertion_loop.simps [simp del]

definition insertionSortFunc :: "'h env \<Rightarrow> 'h engine \<Rightarrow> 'h engine" where
  "insertionSortFunc env s = insertion_loop env (length (arr s)) 1 s"

subsection \<open>quickSortFunc\<close>

text \<open>
  \<^verbatim>\<open>partition\<close>: the \<^verbatim>\<open>for\<close> loop from \<open>j\<close>.  The source's \<^verbatim>\<open>i\<close> starts at \<^verbatim>\<open>low - 1\<close>, which is \<open>-1\<close>
  for \<open>low = 0\<close>; the natural number \<open>ip\<close> stands for \<^verbatim>\<open>i + 1\<close>, so \<^verbatim>\<open>i++\<close> followed by a use of
  \<^verbatim>\<open>i\<close> is a use of \<open>ip\<close> followed by \<open>ip + 1\<close>.
\<close>

function partition_loop :: "'h env \<Rightarrow> int \<Rightarrow> nat \<Rightarrow> nat \<Rightarrow> nat \<Rightarrow> 'h engine \<Rightarrow> nat \<times> 'h engine" where
  "partition_loop env pivot high j ip s =
     (if j < high then
        let s1 = emitComparing env [j, high] (inc_comparisons s) in
        if arr s1 ! j < pivot then
          let s2 = swap ip j (add_writes 2 (inc_swaps s1));
              s3 = emitSwapping env [ip, j] s2
          in partition_loop env pivot high (j + 1) (ip + 1) s3
        else partition_loop env pivot high (j + 1) ip s1
      else (ip, s))"
  by pat_completeness auto
termination
  by (relation "measure (\<lambda>(env, pivot, high, j, ip, s). high - j)") auto

declare partition_loop.simps [simp del]

definition partition :: "'h env \<Rightarrow> nat \<Rightarrow> nat \<Rightarrow> 'h engine \<Rightarrow> nat \<times> 'h engine" where
  "partition env low high s =
     (let pivot = arr s ! high in
      case partition_loop env pivot high low low s of
        (ip, s1) \<Rightarrow>
          let s2 = swap ip high (add_writes 2 (inc_swaps s1));
              s3 = emitSwapping env [ip, high] s2
          in (ip, s3))"

lemma partition_loop_bounds:
  "partition_loop env pivot high j ip s = (p, s') \<Longrightarrow> ip \<le> j \<Longrightarrow> j \<le> high
   \<Longrightarrow> ip \<le> p \<and> p \<le> high"
proof (induction env pivot high j ip s rule: partition_loop.induct)
  case (1 env pivot high j ip s)
  show ?case
  proof (cases "j < high")
    case False
    with "1.prems" show ?thesis by (simp add: partition_loop.simps)
  next
    case True
    define s1 where "s1 = emitComparing env [j, high] (inc_comparisons s)"
    show ?thesis
    proof (cases "arr s1 ! j < pivot")
      case True
      with "1.prems" \<open>j < high\<close>
      have "ip + 1 \<le> p \<and> p \<le> high"
        by (intro "1.IH"(1)[OF \<open>j < high\<close> s1_def True refl refl])
           (simp_all add: partition_loop.simps[of env pivot high j] s1_def Let_def)
      then show ?thesis by simp
    next
      case False
      with "1.prems" \<open>j < high\<close>
      show ?thesis
        by (intro "1.IH"(2)[OF \<open>j < high\<close> s1_def False])
           (simp_all add: partition_loop.simps[of env pivot high j] s1_def Let_def)
    qed
  qed
qed

lemma partition_bounds:
  "partition env low high s = (p, s') \<Longrightarrow> low \<le> high \<Longrightarrow> low \<le> p \<and> p \<le> high"
  unfolding partition_def Let_def
  by (auto split: prod.splits dest!: partition_loop_bounds)

text \<open>
  \<^verbatim>\<open>sort(low, high)\<close>.  \<^verbatim>\<open>pi - 1\<close> (here \<open>p - 1\<close>) is a truncating subtraction here: where the source calls
  \<^verbatim>\<open>sort(0, -1)\<close> the model calls \<open>quick_sort env 0 0\<close>, and both return at once since
  \<^verbatim>\<open>low < high\<close> is false.
\<close>

function quick_sort :: "'h env \<Rightarrow> nat \<Rightarrow> nat \<Rightarrow> 'h engine \<Rightarrow> 'h engine" where
  "quick_sort env low high s =
     (if low < high then
        case partition env low high s of
          (p, s1) \<Rightarrow> quick_sort env (p + 1) high (quick_sort env low (p - 1) s1)
      else s)"
  by pat_completeness auto
termination
proof (relation "measure (\<lambda>(env, low, high, s). high - low)", goal_cases)
  case 1
  show ?case by simp
next
  case (2 env low high s x1 x2)
  from partition_bounds[OF 2(2)[symmetric]] 2(1) show ?case by auto
next
  case (3 env low high s x1 x2)
  from partition_bounds[OF 3(2)[symmetric]] 3(1) show ?case by auto
qed

declare quick_sort.simps [simp del]

definition quickSortFunc :: "'h env \<Rightarrow> 'h engine \<Rightarrow> 'h engine" where
  "quickSortFunc env s = quick_sort env 0 (length (arr s) - 1) s"

subsection \<open>mergeSortFunc\<close>

text \<open>
  The loops of \<^verbatim>\<open>merge\<close>; \<open>L\<close> and \<open>R\<close> are its local arrays.  The second and the third
  \<^verbatim>\<open>while\<close> loop are the same loop, over \<open>L\<close> with \<^verbatim>\<open>i\<close> and over \<open>R\<close> with \<^verbatim>\<open>j\<close>; the index
  it highlights, \<^verbatim>\<open>k - 1\<close> after \<^verbatim>\<open>k++\<close>, is the cell just written.
\<close>

function merge_drain :: "'h env \<Rightarrow> int list \<Rightarrow> nat \<Rightarrow> nat \<Rightarrow> 'h engine \<Rightarrow> nat \<times> 'h engine" where
  "merge_drain env L i k s =
     (if i < length L then
        let s1 = set_arr ((arr s)[k := L ! i]) s;
            s2 = add_writes 1 (inc_swaps s1);
            s3 = emitComparing env [k + 1 - 1] s2
        in merge_drain env L (i + 1) (k + 1) s3
      else (k, s))"
  by pat_completeness auto
termination
  by (relation "measure (\<lambda>(env, L, i, k, s). length L - i)") auto

declare merge_drain.simps [simp del]

function merge_both :: "'h env \<Rightarrow> int list \<Rightarrow> int list \<Rightarrow> nat \<Rightarrow> nat \<Rightarrow> nat \<Rightarrow> 'h engine
    \<Rightarrow> (nat \<times> nat \<times> nat) \<times> 'h engine" where
  "merge_both env L R i j k s =
     (if i < length L \<and> j < length R then
        let s1 = inc_comparisons s in
        if L ! i \<le> R ! j then
          let s2 = set_arr ((arr s1)[k := L ! i]) s1;
              s3 = add_writes 1 (inc_swaps s2);
              s4 = emitComparing env [k] s3
          in merge_both env L R (i + 1) j (k + 1) s4
        else
          let s2 = set_arr ((arr s1)[k := R ! j]) s1;
              s3 = add_writes 1 (inc_swaps s2);
              s4 = emitComparing env [k] s3
          in merge_both env L R i (j + 1) (k + 1) s4
      else ((i, j, k), s))"
  by pat_completeness auto
termination
  by (relation "measure (\<lambda>(env, L, R, i, j, k, s). (length L - i) + (length R - j))") auto

declare merge_both.simps [simp del]

text \<open>
  \<^verbatim>\<open>merge(l, m, r)\<close>: \<open>L\<close> and \<open>R\<close> are filled cell by cell from the working array, then the
  three loops run one after the other.
\<close>

definition merge :: "'h env \<Rightarrow> nat \<Rightarrow> nat \<Rightarrow> nat \<Rightarrow> 'h engine \<Rightarrow> 'h engine" where
  "merge env l m r s =
     (let n1 = m - l + 1;
          n2 = r - m;
          L = map (\<lambda>i. arr s ! (l + i)) [0..<n1];
          R = map (\<lambda>j. arr s ! (m + 1 + j)) [0..<n2]
      in case merge_both env L R 0 0 l s of
           ((i, j, k), s1) \<Rightarrow>
             case merge_drain env L i k s1 of
               (k', s2) \<Rightarrow> snd (merge_drain env R j k' s2))"

text \<open>\<^verbatim>\<open>sort(l, r)\<close>\<close>

function merge_sort :: "'h env \<Rightarrow> nat \<Rightarrow> nat \<Rightarrow> 'h engine \<Rightarrow> 'h engine" where
  "merge_sort env l r s =
     (if l \<ge> r then s
      else
        let m = l + (r - l) div 2;
            s1 = merge_sort env l m s;
            s2 = merge_sort env (m + 1) r s1
        in merge env l m r s2)"
  by pat_completeness auto
termination
  by (relation "measure (\<lambda>(env, l, r, s). r - l)") auto

declare merge_sort.simps [simp del]

definition mergeSortFunc :: "'h env \<Rightarrow> 'h engine \<Rightarrow> 'h engine" where
  "mergeSortFunc env s = merge_sort env 0 (length (arr s) - 1) s"

subsection \<open>heapSortFunc\<close>

text \<open>
  One of the two blocks \<^verbatim>\<open>if (c < size) { ...; if (arr[c] > arr[largest]) largest = c; }\<close> of
  \<^verbatim>\<open>heapify\<close>, for the child \<open>c\<close>; it returns the new \<^verbatim>\<open>largest\<close>.
\<close>

definition heapify_child :: "'h env \<Rightarrow> nat \<Rightarrow> nat \<Rightarrow> nat \<Rightarrow> 'h engine \<Rightarrow> nat \<times> 'h engine" where
  "heapify_child env size' c largest s =
     (if c < size' then
        let s' = emitComparing env [c, largest] (inc_comparisons s)
        in (if arr s' ! c > arr s' ! largest then c else largest, s')
      else (largest, s))"

lemma heapify_child_largest:
  "heapify_child env size' c largest s = (largest', s')
   \<Longrightarrow> largest' = largest \<or> (largest' = c \<and> c < size')"
  by (auto simp: heapify_child_def Let_def split: if_splits)

function heapify :: "'h env \<Rightarrow> nat \<Rightarrow> nat \<Rightarrow> 'h engine \<Rightarrow> 'h engine" where
  "heapify env size' i s =
     (case heapify_child env size' (2 * i + 1) i s of
        (largest1, s1) \<Rightarrow>
          case heapify_child env size' (2 * i + 2) largest1 s1 of
            (largest, s2) \<Rightarrow>
              if largest \<noteq> i then
                let s3 = swap i largest (add_writes 2 (inc_swaps s2));
                    s4 = emitSwapping env [i, largest] s3
                in heapify env size' largest s4
              else s2)"
  by pat_completeness auto
termination
proof (relation "measure (\<lambda>(env, size', i, s). size' - i)", goal_cases)
  case 1
  show ?case by simp
next
  case (2 env size' i s largest1 s1 largest s2)
  from heapify_child_largest[OF 2(1)[symmetric]] heapify_child_largest[OF 2(2)[symmetric]] 2(3)
  show ?case by auto
qed

declare heapify.simps [simp del]

text \<open>
  \<^verbatim>\<open>for (let i = Math.floor(n / 2) - 1; i >= 0; i--)\<close>: the argument counts the
  iterations left, so the index of the next one is that count minus one.
\<close>

fun heap_build :: "'h env \<Rightarrow> nat \<Rightarrow> nat \<Rightarrow> 'h engine \<Rightarrow> 'h engine" where
  "heap_build env n 0 s = s"
| "heap_build env n (Suc i) s = heap_build env n i (heapify env n i s)"

text \<open>\<^verbatim>\<open>for (let i = n - 1; i > 0; i--)\<close>\<close>

fun heap_extract :: "'h env \<Rightarrow> nat \<Rightarrow> 'h engine \<Rightarrow> 'h engine" where
  "heap_extract env 0 s = s"
| "heap_extract env (Suc i') s =
     (let i = Suc i';
          s1 = swap 0 i (add_writes 2 (inc_swaps s));
          s2 = emitSwapping env [0, i] s1
      in heap_extract env i' (heapify env i 0 s2))"

definition heapSortFunc :: "'h env \<Rightarrow> 'h engine \<Rightarrow> 'h engine" where
  "heapSortFunc env s =
     (let n = length (arr s);
          s1 = heap_build env n (n div 2) s
      in heap_extract env (n - 1) s1)"

subsection \<open>radixSortFunc\<close>

text \<open>\<^verbatim>\<open>getMax\<close>: \<^verbatim>\<open>arr[0]\<close> of an empty array is \<^verbatim>\<open>undefined\<close>, here \<open>None\<close>.\<close>

function getMax_loop :: "int list \<Rightarrow> nat \<Rightarrow> int \<Rightarrow> int" where
  "getMax_loop xs i mx =
     (if i < length xs then getMax_loop xs (i + 1) (if xs ! i > mx then xs ! i else mx)
      else mx)"
  by pat_completeness auto
termination
  by (relation "measure (\<lambda>(xs, i, mx). length xs - i)") auto

declare getMax_loop.simps [simp del]

definition getMax :: "int list \<Rightarrow> int option" where
  "getMax xs = (if xs = [] then None else Some (getMax_loop xs 1 (xs ! 0)))"

text \<open>
  JavaScript's \<^verbatim>\<open>%\<close> truncates: the sign of the result is the sign of the dividend.
  \<open>digit a ex\<close> is \<^verbatim>\<open>Math.floor(a / exp) % 10\<close>, with \<open>ex\<close> for the source's \<^verbatim>\<open>exp\<close>.
\<close>

definition js_rem :: "int \<Rightarrow> int \<Rightarrow> int" where
  "js_rem a b = (if 0 \<le> a then a mod \<bar>b\<bar> else - ((- a) mod \<bar>b\<bar>))"

definition digit :: "int \<Rightarrow> int \<Rightarrow> int" where
  "digit a ex = js_rem (a div ex) 10"

text \<open>
  The counting loops work on the ten counters \<^verbatim>\<open>count[0..9]\<close>.  For a negative digit \<open>d\<close>
  the source's \<^verbatim>\<open>count[d]++\<close> creates a property of value \<^verbatim>\<open>NaN\<close> beside the ten counters
  and \<^verbatim>\<open>output[count[d] - 1] = arr[i]\<close> then sets the property \<^verbatim>\<open>output[NaN]\<close>: neither
  touches a counter or a cell of \<^verbatim>\<open>output\<close>, so these elements are skipped here.
  \<^verbatim>\<open>output\<close> starts as \<^verbatim>\<open>new Array(n)\<close>, all holes (\<open>None\<close>).
\<close>

function count_digits :: "int list \<Rightarrow> int \<Rightarrow> nat \<Rightarrow> int list \<Rightarrow> int list" where
  "count_digits xs ex i cnt =
     (if i < length xs then
        let d = digit (xs ! i) ex in
        count_digits xs ex (i + 1)
          (if 0 \<le> d then cnt[nat d := cnt ! nat d + 1] else cnt)
      else cnt)"
  by pat_completeness auto
termination
  by (relation "measure (\<lambda>(xs, ex, i, cnt). length xs - i)") auto

declare count_digits.simps [simp del]

function accumulate :: "nat \<Rightarrow> int list \<Rightarrow> int list" where
  "accumulate i cnt =
     (if i < 10 then accumulate (i + 1) (cnt[i := cnt ! i + cnt ! (i - 1)]) else cnt)"
  by pat_completeness auto
termination
  by (relation "measure (\<lambda>(i, cnt). 10 - i)") auto

declare accumulate.simps [simp del]

text \<open>
  \<^verbatim>\<open>for (let i = arr.length - 1; i >= 0; i--)\<close>: the first argument counts the iterations
  left, so the index of the next one is that cnt minus one.  A write to
  \<^verbatim>\<open>output[count[d] - 1]\<close> with \<^verbatim>\<open>count[d] - 1\<close> outside \<open>0..n-1\<close> would set a property
  beside the \<open>n\<close> cells; the list update does nothing there.
\<close>

fun place :: "int list \<Rightarrow> int \<Rightarrow> nat \<Rightarrow> int list \<times> int option list \<Rightarrow> int list \<times> int option list" where
  "place xs ex 0 (cnt, output) = (cnt, output)"
| "place xs ex (Suc i) (cnt, output) =
     (let d = digit (xs ! i) ex in
      place xs ex i
        (if 0 \<le> d then
           (cnt[nat d := cnt ! nat d - 1],
            if 0 \<le> cnt ! nat d - 1 then output[nat (cnt ! nat d - 1) := Some (xs ! i)]
            else output)
         else (cnt, output)))"

text \<open>
  The last loop: \<^verbatim>\<open>arr[i] = output[i]\<close>.  Reading a hole yields \<^verbatim>\<open>undefined\<close>.
\<close>

function copy_back :: "'h env \<Rightarrow> int option list \<Rightarrow> nat \<Rightarrow> 'h engine \<Rightarrow> 'h engine result" where
  "copy_back env output i s =
     (if i < length (arr s) then
        let s1 = add_writes 1 (inc_swaps s) in
        case output ! i of
          None \<Rightarrow> Unmodelled
        | Some v \<Rightarrow>
            copy_back env output (i + 1) (emitSwapping env [i] (set_arr ((arr s1)[i := v]) s1))
      else Returned s)"
  by pat_completeness auto
termination
  by (relation "measure (\<lambda>(env, output, i, s). length (arr s) - i)") auto

declare copy_back.simps [simp del]

definition countingSort :: "'h env \<Rightarrow> int \<Rightarrow> 'h engine \<Rightarrow> 'h engine result" where
  "countingSort env ex s =
     (let output = replicate (length (arr s)) None;
          cnt = replicate 10 0;
          cnt1 = count_digits (arr s) ex 0 cnt;
          cnt2 = accumulate 1 cnt1
      in case place (arr s) ex (length (arr s)) (cnt2, output) of
           (cnt3, output') \<Rightarrow> copy_back env output' 0 s)"

text \<open>
  \<^verbatim>\<open>for (let exp = 1; Math.floor(max / exp) > 0; exp *= 10)\<close>, for an integer \<^verbatim>\<open>max\<close>.
\<close>

function radix_loop :: "'h env \<Rightarrow> int \<Rightarrow> int \<Rightarrow> 'h engine \<Rightarrow> 'h engine result" where
  "radix_loop env mx ex s =
     (if mx div ex > 0 then
        case countingSort env ex s of
          Returned s' \<Rightarrow> radix_loop env mx (ex * 10) s'
        | Threw e s' \<Rightarrow> Threw e s'
        | ThrewTampered u s' \<Rightarrow> ThrewTampered u s'
        | Unmodelled \<Rightarrow> Unmodelled
      else Returned s)"
  by pat_completeness auto
termination
proof (relation "measure (\<lambda>(env, mx, ex, s). nat (mx div ex))", goal_cases)
  case 1
  show ?case by simp
next
  case (2 env mx ex s s')
  have "mx div (ex * 10) = (mx div ex) div 10"
    by (simp add: zdiv_zmult2_eq)
  with 2(1) show ?case by simp
qed

declare radix_loop.simps [simp del]

text \<open>
  With an empty array \<^verbatim>\<open>max\<close> is \<^verbatim>\<open>undefined\<close> and \<^verbatim>\<open>Math.floor(undefined / 1) > 0\<close> is false:
  no pass is made.
\<close>

definition radixSortFunc :: "'h env \<Rightarrow> 'h engine \<Rightarrow> 'h engine result" where
  "radixSortFunc env s =
     (case getMax (arr s) of
        None \<Rightarrow> Returned s
      | Some mx \<Rightarrow> radix_loop env mx 1 s)"

subsection \<open>bucketSortFunc\<close>

text \<open>\<^verbatim>\<open>Math.max(...arr)\<close> of an array that is not empty.\<close>

definition math_max :: "int list \<Rightarrow> int" where
  "math_max xs = fold max (tl xs) (hd xs)"

text \<open>
  \<^verbatim>\<open>Math.floor((arr[i] / (max + 1)) * bucketCount)\<close>: the quotient is rounded to a double, and
  so is the product.  When \<^verbatim>\<open>max + 1\<close> is \<open>0\<close> every element is negative and the source's
  quotient is \<^verbatim>\<open>-Infinity\<close>, which is no index: \<open>None\<close>.
\<close>

definition bucketIndex :: "'h env \<Rightarrow> int \<Rightarrow> int \<Rightarrow> nat \<Rightarrow> int option" where
  "bucketIndex env a mx bucketCount =
     (if mx + 1 = 0 then None
      else Some \<lfloor>roundDouble env
             (roundDouble env (real_of_int a / real_of_int (mx + 1)) * real bucketCount)\<rfloor>)"

text \<open>
  \<^verbatim>\<open>buckets[bucketIndex].push(arr[i])\<close> where \<^verbatim>\<open>buckets[bucketIndex]\<close> is \<^verbatim>\<open>undefined\<close>: a
  \<^verbatim>\<open>TypeError\<close>.  The message is the engine's (here V8's); the stack of an error raised by
  the service's own code is read by nobody and is left out.
\<close>

definition pushOfUndefined :: js_thrown where
  "pushOfUndefined = Error ''Cannot read properties of undefined (reading 'push')'' None"

function distribute :: "'h env \<Rightarrow> int \<Rightarrow> nat \<Rightarrow> nat \<Rightarrow> int list list \<Rightarrow> 'h engine
    \<Rightarrow> (int list list \<times> 'h engine) result" where
  "distribute env mx bucketCount i buckets s =
     (if i < length (arr s) then
        case bucketIndex env (arr s ! i) mx bucketCount of
          None \<Rightarrow> Threw pushOfUndefined (buckets, s)
        | Some b \<Rightarrow>
            if 0 \<le> b \<and> b < int (length buckets) then
              distribute env mx bucketCount (i + 1)
                (buckets[nat b := buckets ! nat b @ [arr s ! i]]) (inc_swaps s)
            else Threw pushOfUndefined (buckets, s)
      else Returned (buckets, s))"
  by pat_completeness auto
termination
  by (relation "measure (\<lambda>(env, mx, bucketCount, i, buckets, s). length (arr s) - i)") auto

declare distribute.simps [simp del]

text \<open>
  The insertion sort of one bucket; \<open>k\<close> stands for the source's \<^verbatim>\<open>k + 1\<close>, which runs
  down to \<open>0\<close>.
\<close>

function bucket_shift :: "int \<Rightarrow> nat \<Rightarrow> int list \<Rightarrow> nat \<times> int list" where
  "bucket_shift current k b =
     (if 0 < k \<and> b ! (k - 1) > current then bucket_shift current (k - 1) (b[k := b ! (k - 1)])
      else (k, b))"
  by pat_completeness auto
termination
  by (relation "measure (\<lambda>(current, k, b). k)") auto

declare bucket_shift.simps [simp del]

lemma length_bucket_shift: "length (snd (bucket_shift current k b)) = length b"
  by (induction current k b rule: bucket_shift.induct)
     (subst bucket_shift.simps, simp)

function bucket_insertion :: "nat \<Rightarrow> int list \<Rightarrow> int list" where
  "bucket_insertion j b =
     (if j < length b then
        let current = b ! j in
        case bucket_shift current j b of
          (k, b') \<Rightarrow> bucket_insertion (j + 1) (b'[k := current])
      else b)"
  by pat_completeness auto
termination
proof (relation "measure (\<lambda>(j, b). length b - j)", goal_cases)
  case 1
  show ?case by simp
next
  case (2 j b current k b')
  from 2(3) have "b' = snd (bucket_shift current j b)" by (metis snd_conv)
  with 2(1) show ?case by (simp add: length_bucket_shift)
qed

declare bucket_insertion.simps [simp del]

function copy_bucket :: "'h env \<Rightarrow> int list \<Rightarrow> nat \<Rightarrow> nat \<Rightarrow> 'h engine \<Rightarrow> nat \<times> 'h engine" where
  "copy_bucket env b j index s =
     (if j < length b then
        let s1 = set_arr ((arr s)[index := b ! j]) s;
            s2 = add_writes 1 s1;
            s3 = emitSwapping env [index + 1 - 1] s2
        in copy_bucket env b (j + 1) (index + 1) s3
      else (index, s))"
  by pat_completeness auto
termination
  by (relation "measure (\<lambda>(env, b, j, index, s). length b - j)") auto

declare copy_bucket.simps [simp del]

function copy_buckets :: "'h env \<Rightarrow> int list list \<Rightarrow> nat \<Rightarrow> nat \<Rightarrow> 'h engine \<Rightarrow> 'h engine" where
  "copy_buckets env buckets i index s =
     (if i < length buckets then
        case copy_bucket env (buckets ! i) 0 index s of
          (index', s') \<Rightarrow> copy_buckets env buckets (i + 1) index' s'
      else s)"
  by pat_completeness auto
termination
  by (relation "measure (\<lambda>(env, buckets, i, index, s). length buckets - i)") auto

declare copy_buckets.simps [simp del]

definition bucketSortFunc :: "'h env \<Rightarrow> 'h engine \<Rightarrow> 'h engine result" where
  "bucketSortFunc env s =
     (let n = length (arr s) in
      if n \<le> 0 then Returned s
      else
        let bucketCount = nat \<lfloor>roundDouble env (sqrt (real n))\<rfloor>;
            buckets = replicate bucketCount [];
            mx = (if math_max (arr s) = 0 then 1 else math_max (arr s))
        in case distribute env mx bucketCount 0 buckets s of
             Returned (buckets1, s1) \<Rightarrow>
               Returned (copy_buckets env (map (bucket_insertion 1) buckets1) 0 0 s1)
           | Threw e (buckets1, s1) \<Rightarrow> Threw e s1
           | ThrewTampered u (buckets1, s1) \<Rightarrow> ThrewTampered u s1
           | Unmodelled \<Rightarrow> Unmodelled)"

subsection \<open>bogoSortFunc\<close>

function isSorted :: "nat \<Rightarrow> 'h engine \<Rightarrow> bool \<times> 'h engine" where
  "isSorted i s =
     (if i + 1 < length (arr s) then
        let s1 = inc_comparisons s in
        if arr s1 ! i > arr s1 ! (i + 1) then (False, s1) else isSorted (i + 1) s1
      else (True, s))"
  by pat_completeness auto
termination
  by (relation "measure (\<lambda>(i, s). length (arr s) - i)") auto

declare isSorted.simps [simp del]

text \<open>
  \<^verbatim>\<open>for (let i = arr.length - 1; i > 0; i--)\<close> of \<^verbatim>\<open>shuffle\<close>; each pass draws one random
  number.
\<close>

fun shuffle_loop :: "'h env \<Rightarrow> nat \<Rightarrow> 'h engine \<Rightarrow> 'h engine" where
  "shuffle_loop env 0 s = s"
| "shuffle_loop env (Suc i') s =
     (let i = Suc i';
          j = random env (tick s) mod (i + 1);
          s1 = s\<lparr>tick := tick s + 1\<rparr>;
          s2 = swap i j (add_writes 2 (inc_swaps s1))
      in shuffle_loop env i' s2)"

definition shuffle :: "'h env \<Rightarrow> 'h engine \<Rightarrow> 'h engine" where
  "shuffle env s = emitNothing env (shuffle_loop env (length (arr s) - 1) s)"

text \<open>\<^verbatim>\<open>while (!isSorted()) await shuffle()\<close> has no bound: \<open>None\<close> is a loop that never ends.\<close>

partial_function (option) bogo_loop :: "'h env \<Rightarrow> 'h engine \<Rightarrow> 'h engine option" where
  "bogo_loop env s =
     (case isSorted 0 s of
        (sorted', s1) \<Rightarrow> if sorted' then Some s1 else bogo_loop env (shuffle env s1))"

definition bogoSortFunc :: "'h env \<Rightarrow> 'h engine \<Rightarrow> 'h engine option" where
  "bogoSortFunc env s = bogo_loop env s"

section \<open>The dynamic code loader (userCodeFunc)\<close>

text \<open>
  \<^verbatim>\<open>e.stack.match(/<anonymous>:(\d+):(\d+)/)\<close>: the leftmost place where the text
  \<^verbatim>\<open><anonymous>:\<close> is followed by digits, a colon and digits.  Both groups are greedy; a
  shorter first group cannot help, since the character after it would be a digit.
\<close>

definition isDigit :: "char \<Rightarrow> bool" where
  "isDigit c = (c \<in> set ''0123456789'')"

definition matchHere :: "string \<Rightarrow> (string \<times> string) option" where
  "matchHere t =
     (if take 12 t = ''<anonymous>:'' then
        let r = drop 12 t;
            line = takeWhile isDigit r;
            r' = dropWhile isDigit r
        in if line \<noteq> [] \<and> take 1 r' = '':'' then
             let column = takeWhile isDigit (drop 1 r')
             in if column \<noteq> [] then Some (line, column) else None
           else None
      else None)"

fun matchAnonymous :: "string \<Rightarrow> (string \<times> string) option" where
  "matchAnonymous [] = None"
| "matchAnonymous (c # cs) =
     (case matchHere (c # cs) of Some m \<Rightarrow> Some m | None \<Rightarrow> matchAnonymous cs)"

text \<open>The \<^verbatim>\<open>detailedMessage\<close> of the second \<^verbatim>\<open>catch\<close> block.\<close>

definition detailedMessage :: "string \<Rightarrow> string option \<Rightarrow> string" where
  "detailedMessage msg stack =
     (case stack of
        None \<Rightarrow> msg
      | Some st \<Rightarrow>
          (case matchAnonymous st of
             None \<Rightarrow> msg
           | Some (line, column) \<Rightarrow>
               msg @ '' (at line '' @ line @ '', column '' @ column @ '')''))"

definition notAFunction :: string where
  "notAFunction =
     ''Provided code does not evaluate to a function. Make sure 'async function userSort...' is defined.''"

text \<open>
  The two \<^verbatim>\<open>try\<close> blocks.  The errors made by \<^verbatim>\<open>new Error(...)\<close> here carry no stack in
  the model: the runner reads their message only.  Both \<^verbatim>\<open>catch\<close> blocks read \<^verbatim>\<open>e.message\<close> of
  an \<^verbatim>\<open>Error\<close> instance; when that read throws, what it throws leaves the block as it is.
\<close>

definition userCodeFunc :: "'h env \<Rightarrow> string \<Rightarrow> 'h engine \<Rightarrow> 'h engine result option" where
  "userCodeFunc env code s =
     (case evalUserCode env code of
        EvalThrows (Error m st) \<Rightarrow> Some (Threw (Error (''Compilation Error: '' @ m) None) s)
      | EvalThrows NonError \<Rightarrow>
          Some (Threw (Error ''An unknown compilation error occurred.'' None) s)
      | EvalThrowsTampered (Tampered v) \<Rightarrow> Some (escapes v s)
      | EvalYields NotCallable \<Rightarrow>
          Some (Threw (Error (''Compilation Error: '' @ notAFunction) None) s)
      | EvalYields (Callable userSortFunction) \<Rightarrow>
          (case userSortFunction s of
             None \<Rightarrow> None
           | Some (Returned s') \<Rightarrow> Some (Returned s')
           | Some (Threw (Error m st) s') \<Rightarrow>
               Some (Threw (Error (''Runtime Error: '' @ detailedMessage m st) None) s')
           | Some (Threw NonError s') \<Rightarrow>
               Some (Threw (Error ''An unknown runtime error occurred.'' None) s')
           | Some (ThrewTampered (Tampered v) s') \<Rightarrow> Some (escapes v s')
           | Some Unmodelled \<Rightarrow> Some Unmodelled))"

section \<open>The execution driver (getAlgorithmRunner)\<close>

text \<open>
  A run resolves with the final counters, or with \<^verbatim>\<open>undefined\<close> (\<open>None\<close>) after a failure,
  or its promise is rejected with a thrown value.
\<close>

datatype 'h run =
  Resolved "SortStats option" "'h engine"
  | Rejected "js_thrown + tampered" "'h engine"
  | RunUnmodelled

definition noHighlights :: Highlight where
  "noHighlights = \<lparr>comparing = None, swapping = None\<rparr>"

definition zeroStats :: SortStats where
  "zeroStats = \<lparr>comparisons = 0, swaps = 0, writes = 0, time = 0\<rparr>"

text \<open>
  The function \<^verbatim>\<open>async (initialArray) => ...\<close> that the runner returns.  The caller's array
  is the object \<open>Initial\<close> of the store, with the contents \<open>initialArray\<close> at the call; \<open>s0\<close>
  is the rest of the world.  \<^verbatim>\<open>console.error\<close> is left out.  In the \<^verbatim>\<open>catch\<close> block the
  arguments of the callback are evaluated from left to right: the clock is read, then
  \<^verbatim>\<open>e.message\<close>; when that read throws, the callback is not called and the thrown value
  leaves the function.
\<close>

text \<open>The message handed to the callback after a failure.\<close>

definition errorMessageOf :: "js_thrown \<Rightarrow> string" where
  "errorMessageOf e =
     (case e of Error m stack \<Rightarrow> ''Error: '' @ m | NonError \<Rightarrow> ''An unknown error occurred.'')"

definition enter :: "int list \<Rightarrow> 'h engine \<Rightarrow> 'h engine" where
  "enter initialArray s0 =
     s0\<lparr>stats := zeroStats,
        heap := (heap s0)(Initial := initialArray, Working := initialArray),
        pausedTime := 0,
        pauseStartTime := 0\<rparr>"

definition runner :: "'h env \<Rightarrow> ('h engine \<Rightarrow> 'h engine result option) \<Rightarrow> int list \<Rightarrow> 'h engine
    \<Rightarrow> 'h run option" where
  "runner env sortFunc initialArray s0 =
     (let s = enter initialArray s0;
          (startTime, s1) = readClock env s
      in case sortFunc s1 of
           None \<Rightarrow> None
         | Some Unmodelled \<Rightarrow> Some RunUnmodelled
         | Some (Threw e s2) \<Rightarrow>
             let (t, s3) = readClock env s2;
                 st = (stats s3)\<lparr>time := t - startTime - pausedTime s3\<rparr>
             in Some (Resolved None
                  (invoke env Initial noHighlights st (Some (errorMessageOf e)) s3))
         | Some (ThrewTampered (Tampered v) s2) \<Rightarrow>
             let (t, s3) = readClock env s2
             in Some (Rejected v s3)
         | Some (Returned s2) \<Rightarrow>
             let (t, s3) = readClock env s2;
                 s4 = s3\<lparr>stats := (stats s3)\<lparr>time := t - startTime - pausedTime s3\<rparr>\<rparr>;
                 (a, s5) = copyArr s4;
                 s6 = invoke env a noHighlights (stats s5) None s5
             in Some (Resolved (Some (stats s6)) s6))"

definition sortFuncOf :: "'h env \<Rightarrow> AlgorithmKey \<Rightarrow> string \<Rightarrow> 'h engine \<Rightarrow> 'h engine result option" where
  "sortFuncOf env key code =
     (case key of
        bubbleSort \<Rightarrow> (\<lambda>s. Some (Returned (bubbleSortFunc env s)))
      | selectionSort \<Rightarrow> (\<lambda>s. Some (Returned (selectionSortFunc env s)))
      | insertionSort \<Rightarrow> (\<lambda>s. Some (Returned (insertionSortFunc env s)))
      | quickSort \<Rightarrow> (\<lambda>s. Some (Returned (quickSortFunc env s)))
      | mergeSort \<Rightarrow> (\<lambda>s. Some (Returned (mergeSortFunc env s)))
      | heapSort \<Rightarrow> (\<lambda>s. Some (Returned (heapSortFunc env s)))
      | radixSort \<Rightarrow> (\<lambda>s. Some (radixSortFunc env s))
      | bucketSort \<Rightarrow> (\<lambda>s. Some (bucketSortFunc env s))
      | bogoSort \<Rightarrow> (\<lambda>s. map_option Returned (bogoSortFunc env s))
      | userCode \<Rightarrow> userCodeFunc env code)"

text \<open>
  \<^verbatim>\<open>getAlgorithmRunner(key, userCode?)\<close>: the \<^verbatim>\<open>switch\<close> either throws or yields the runner.
  \<^verbatim>\<open>!userCode\<close> holds for a missing argument and for the empty string.  The \<^verbatim>\<open>default\<close>
  branch is unreachable for a value of the closed type \<open>AlgorithmKey\<close>.
\<close>

definition userCodeMissing :: string where
  "userCodeMissing = ''User code must be provided for 'userCode' algorithm.''"

definition getAlgorithmRunner :: "AlgorithmKey \<Rightarrow> string option
    \<Rightarrow> js_thrown + ('h env \<Rightarrow> int list \<Rightarrow> 'h engine \<Rightarrow> 'h run option)" where
  "getAlgorithmRunner key code =
     (if key = userCode \<and> (code = None \<or> code = Some [])
      then Inl (Error userCodeMissing None)
      else Inr (\<lambda>env. runner env (sortFuncOf env key (case code of None \<Rightarrow> [] | Some c \<Rightarrow> c))))"

text \<open>
  \<^verbatim>\<open>getAlgorithmRunner(key, code)(updateCallback, getDelay, getIsPaused)(initialArray)\<close>, as
  \<^verbatim>\<open>runSort\<close> of App.tsx calls it.
\<close>

definition runSort :: "AlgorithmKey \<Rightarrow> string option \<Rightarrow> 'h env \<Rightarrow> int list \<Rightarrow> 'h engine
    \<Rightarrow> js_thrown + 'h run option" where
  "runSort key code env initialArray s0 =
     (case getAlgorithmRunner key code of
        Inl e \<Rightarrow> Inl e
      | Inr run \<Rightarrow> Inr (run env initialArray s0))"


text \<open>A world in which nothing has run yet.\<close>

definition world :: "'h \<Rightarrow> 'h engine" where
  "world h =
     \<lparr>heap = (\<lambda>a. []), snapshots = 0, stats = zeroStats, pausedTime = 0,
      pauseStartTime = 0, host = h, calls = [], pauses = [], tick = 0\<rparr>"

section \<open>The host (App.tsx, useArenaState)\<close>

text \<open>
  The state of one arena: the flag \<^verbatim>\<open>isCancelled\<close> of the running effect and the React state
  that the callback sets.
\<close>

record arena =
  isCancelled :: bool
  array :: "int list"
  highlights :: Highlight
  arenaStats :: SortStats
  error :: "string option"





section \<open>Closed environments for the examples\<close>

text \<open>
  A host without state, a callback that does nothing, a clock that shows the tick, no
  pause, no delay, and an evaluator whose answer is given.
\<close>

definition idleEnv :: "unit evaluation \<Rightarrow> unit env" where
  "idleEnv ev =
     \<lparr>updateCallback = (\<lambda>xs hl st err h. (h, xs)),
      hostAsync = (\<lambda>t h. h),
      now = (\<lambda>t. real t),
      pausePolls = (\<lambda>t. 0),
      getDelay = (\<lambda>t. 0),
      random = (\<lambda>t. 0),
      evalUserCode = (\<lambda>code. ev),
      roundDouble = (\<lambda>x. x)\<rparr>"


text \<open>
  A user function that throws an \<^verbatim>\<open>Error\<close> whose \<^verbatim>\<open>message\<close> getter throws a second \<^verbatim>\<open>Error\<close>,
  whose \<^verbatim>\<open>message\<close> getter throws the number \<^verbatim>\<open>1\<close>.
\<close>

definition throwsTampered :: "unit js_value" where
  "throwsTampered =
     Callable (\<lambda>s. Some (ThrewTampered (Tampered (Inr (Tampered (Inl NonError)))) s))"



text \<open>An environment that pauses once, at tick \<open>2\<close>, for three polls; its clock shows ten
  times the tick.  And one whose callback overwrites the array it receives.\<close>

definition pausingEnv :: "unit env" where
  "pausingEnv =
     \<lparr>updateCallback = (\<lambda>xs hl st err h. (h, xs)),
      hostAsync = (\<lambda>t h. h),
      now = (\<lambda>t. 10 * real t),
      pausePolls = (\<lambda>t. if t = 2 then 3 else 0),
      getDelay = (\<lambda>t. 0),
      random = (\<lambda>t. 0),
      evalUserCode = (\<lambda>code. EvalYields NotCallable),
      roundDouble = (\<lambda>x. x)\<rparr>"

definition scribblingEnv :: "unit env" where
  "scribblingEnv =
     \<lparr>updateCallback = (\<lambda>xs hl st err h. (h, map (\<lambda>x. 0) xs)),
      hostAsync = (\<lambda>t h. h),
      now = (\<lambda>t. real t),
      pausePolls = (\<lambda>t. 0),
      getDelay = (\<lambda>t. 0),
      random = (\<lambda>t. 0),
      evalUserCode = (\<lambda>code. EvalYields NotCallable),
      roundDouble = (\<lambda>x. x)\<rparr>"


section \<open>Runs as sequences of primitive steps\<close>

text \<open>
  What a step function can do to the state of a run: write to the working array, set the
  counters, call \<^verbatim>\<open>update\<close>, and draw a random number.  \<open>steps env s s'\<close> holds when \<open>s'\<close> is
  reached from \<open>s\<close> by such steps.  Every built-in variant stays within them; so does
  user code, which is handed the working array, \<^verbatim>\<open>update\<close> and the counters and nothing else
  of the run.
\<close>

inductive steps :: "'h env \<Rightarrow> 'h engine \<Rightarrow> 'h engine \<Rightarrow> bool" for env s where
  start: "steps env s s"
| writes: "steps env s s' \<Longrightarrow> steps env s (set_arr xs s')"
| counts: "steps env s s' \<Longrightarrow> steps env s (s'\<lparr>stats := st\<rparr>)"
| emits: "steps env s s' \<Longrightarrow> steps env s (update env hl su s')"
| draws: "steps env s s' \<Longrightarrow> steps env s (s'\<lparr>tick := Suc (tick s')\<rparr>)"

lemma steps_swap: "steps env s s' \<Longrightarrow> steps env s (swap i j s')"
  by (simp add: swap_def steps.writes)

lemma steps_inc_comparisons: "steps env s s' \<Longrightarrow> steps env s (inc_comparisons s')"
  by (simp add: inc_comparisons_def steps.counts)

lemma steps_inc_swaps: "steps env s s' \<Longrightarrow> steps env s (inc_swaps s')"
  by (simp add: inc_swaps_def steps.counts)

lemma steps_add_writes: "steps env s s' \<Longrightarrow> steps env s (add_writes k s')"
  by (simp add: add_writes_def steps.counts)

lemmas steps_prim =
  steps.writes steps.emits steps_swap steps_inc_comparisons steps_inc_swaps steps_add_writes

lemma steps_bubble_pass: "steps env s0 s \<Longrightarrow> steps env s0 (snd (bubble_pass env n i sw s))"
  by (induction env n i sw s rule: bubble_pass.induct)
     (subst bubble_pass.simps, simp add: Let_def steps_prim)

lemma steps_bubble_loop: "steps env s0 s \<Longrightarrow> steps env s0 (bubble_loop env n s)"
proof (induction env n s rule: bubble_loop.induct)
  case (1 env n s)
  show ?case
    using "1.prems" "1.IH" steps_bubble_pass[OF "1.prems", of n 0 False]
    by (subst bubble_loop.simps) (auto split: prod.splits)
qed

lemma steps_selection_scan: "steps env s0 s \<Longrightarrow> steps env s0 (snd (selection_scan env n j m s))"
  by (induction env n j m s rule: selection_scan.induct)
     (subst selection_scan.simps, simp add: Let_def steps_prim)

lemma steps_selection_loop: "steps env s0 s \<Longrightarrow> steps env s0 (selection_loop env n i s)"
proof (induction env n i s rule: selection_loop.induct)
  case (1 env n i s)
  show ?case
    using "1.prems" "1.IH" steps_selection_scan[OF "1.prems", of n "i + 1" i]
    by (subst selection_loop.simps) (auto split: prod.splits simp: steps_prim)
qed

lemma steps_insertion_shift:
  "steps env s0 s \<Longrightarrow> steps env s0 (snd (insertion_shift env c k s))"
  by (induction env c k s rule: insertion_shift.induct)
     (subst insertion_shift.simps, simp add: Let_def steps_prim)

lemma steps_insertion_loop: "steps env s0 s \<Longrightarrow> steps env s0 (insertion_loop env n i s)"
proof (induction env n i s arbitrary: s0 rule: insertion_loop.induct)
  case (1 env n i s)
  show ?case
  proof (cases "i < n")
    case False
    with "1.prems" show ?thesis by (subst insertion_loop.simps) simp
  next
    case True
    obtain k s2 where k: "insertion_shift env (arr s ! i) i (emitComparing env [i] s) = (k, s2)"
      by (cases "insertion_shift env (arr s ! i) i (emitComparing env [i] s)")
    from steps_insertion_shift[OF steps.emits[OF "1.prems",
          of "\<lparr>comparing = Some [i], swapping = None\<rparr>" noStatUpdate],
        where c = "arr s ! i" and k = i] k
    have s2: "steps env s0 s2" by simp
    define s5 where "s5 = set_arr ((arr (add_writes 1 (if 0 < k then inc_comparisons s2 else s2)))
        [k := arr s ! i]) (add_writes 1 (if 0 < k then inc_comparisons s2 else s2))"
    have "steps env s0 s5"
      unfolding s5_def using s2 by (simp add: steps_prim)
    from "1.IH"[OF True refl refl k[symmetric] refl refl s5_def this]
    show ?thesis
      using True k by (subst insertion_loop.simps) (simp add: Let_def s5_def)
  qed
qed

lemma steps_partition_loop:
  "steps env s0 s \<Longrightarrow> steps env s0 (snd (partition_loop env pv high j ip s))"
  by (induction env pv high j ip s rule: partition_loop.induct)
     (subst partition_loop.simps, simp add: Let_def steps_prim)

lemma steps_partition: "steps env s0 s \<Longrightarrow> steps env s0 (snd (partition env low high s))"
  using steps_partition_loop[of env s0 s "arr s ! high" high low low]
  by (auto simp: partition_def Let_def steps_prim split: prod.splits)

lemma steps_quick_sort: "steps env s0 s \<Longrightarrow> steps env s0 (quick_sort env low high s)"
proof (induction env low high s arbitrary: s0 rule: quick_sort.induct)
  case (1 env low high s)
  show ?case
  proof (cases "low < high")
    case False
    with "1.prems" show ?thesis by (subst quick_sort.simps) simp
  next
    case True
    obtain p s1 where p: "partition env low high s = (p, s1)" by (cases "partition env low high s")
    from steps_partition[OF "1.prems", of low high] p have "steps env s0 s1" by simp
    from "1.IH"(1)[OF True p[symmetric] this]
    have "steps env s0 (quick_sort env low (p - 1) s1)" .
    from "1.IH"(2)[OF True p[symmetric] this] True p show ?thesis
      by (subst quick_sort.simps) simp
  qed
qed

lemma steps_merge_drain:
  "steps env s0 s \<Longrightarrow> steps env s0 (snd (merge_drain env L i k s))"
  by (induction env L i k s rule: merge_drain.induct)
     (subst merge_drain.simps, simp add: Let_def steps_prim)

lemma steps_merge_both:
  "steps env s0 s \<Longrightarrow> steps env s0 (snd (merge_both env L R i j k s))"
  by (induction env L R i j k s rule: merge_both.induct)
     (subst merge_both.simps, simp add: Let_def steps_prim)

lemma steps_merge:
  assumes "steps env s0 s"
  shows "steps env s0 (merge env l m r s)"
proof -
  define L where "L = map (\<lambda>i. arr s ! (l + i)) [0..<m - l + 1]"
  define R where "R = map (\<lambda>j. arr s ! (m + 1 + j)) [0..<r - m]"
  obtain i j k s1 where b: "merge_both env L R 0 0 l s = ((i, j, k), s1)"
    by (metis prod_cases3 surj_pair)
  obtain k' s2 where d: "merge_drain env L i k s1 = (k', s2)"
    by (cases "merge_drain env L i k s1")
  from steps_merge_both[OF assms, of L R 0 0 l] b have "steps env s0 s1" by simp
  from steps_merge_drain[OF this, of L i k] d have "steps env s0 s2" by simp
  from steps_merge_drain[OF this, of R j k'] b d show ?thesis
    by (simp add: merge_def Let_def L_def R_def)
qed

lemma steps_merge_sort: "steps env s0 s \<Longrightarrow> steps env s0 (merge_sort env l r s)"
proof (induction env l r s arbitrary: s0 rule: merge_sort.induct)
  case (1 env l r s)
  show ?case
  proof (cases "l \<ge> r")
    case True
    with "1.prems" show ?thesis by (subst merge_sort.simps) simp
  next
    case False
    from "1.IH"(1)[OF False refl "1.prems"]
    have a: "steps env s0 (merge_sort env l (l + (r - l) div 2) s)" .
    from "1.IH"(2)[OF False refl refl a]
    have "steps env s0 (merge_sort env (l + (r - l) div 2 + 1) r (merge_sort env l (l + (r - l) div 2) s))" .
    from steps_merge[OF this] False show ?thesis
      by (subst merge_sort.simps) (simp add: Let_def)
  qed
qed

lemma steps_heapify_child:
  "steps env s0 s \<Longrightarrow> steps env s0 (snd (heapify_child env sz c lg s))"
  by (simp add: heapify_child_def Let_def steps_prim)

lemma steps_heapify: "steps env s0 s \<Longrightarrow> steps env s0 (heapify env sz i s)"
proof (induction env sz i s arbitrary: s0 rule: heapify.induct)
  case (1 env sz i s)
  obtain l1 s1 where c1: "heapify_child env sz (2 * i + 1) i s = (l1, s1)"
    by (cases "heapify_child env sz (2 * i + 1) i s")
  obtain l2 s2 where c2: "heapify_child env sz (2 * i + 2) l1 s1 = (l2, s2)"
    by (cases "heapify_child env sz (2 * i + 2) l1 s1")
  from steps_heapify_child[OF "1.prems", of sz "2 * i + 1" i] c1 have "steps env s0 s1" by simp
  from steps_heapify_child[OF this, of sz "2 * i + 2" l1] c2 have s2: "steps env s0 s2" by simp
  show ?case
  proof (cases "l2 \<noteq> i")
    case False
    with c1 c2 s2 show ?thesis by (subst heapify.simps) simp
  next
    case True
    define s4 where "s4 = emitSwapping env [i, l2] (swap i l2 (add_writes 2 (inc_swaps s2)))"
    have "steps env s0 s4" unfolding s4_def using s2 by (simp add: steps_prim)
    from "1.IH"[OF c1[symmetric] c2[symmetric] True refl s4_def this]
    show ?thesis using c1 c2 True by (subst heapify.simps) (simp add: Let_def s4_def)
  qed
qed

lemma steps_heap_build: "steps env s0 s \<Longrightarrow> steps env s0 (heap_build env n k s)"
  by (induction k arbitrary: s) (simp_all add: steps_heapify)

lemma steps_heap_extract: "steps env s0 s \<Longrightarrow> steps env s0 (heap_extract env k s)"
  by (induction k arbitrary: s) (simp_all add: steps_heapify steps_prim Let_def)

text \<open>The same for the step functions that may throw, and for the one that may not end.\<close>

fun result_steps :: "'h env \<Rightarrow> 'h engine \<Rightarrow> 'h engine result \<Rightarrow> bool" where
  "result_steps env s0 (Returned s) = steps env s0 s"
| "result_steps env s0 (Threw e s) = steps env s0 s"
| "result_steps env s0 (ThrewTampered u s) = steps env s0 s"
| "result_steps env s0 Unmodelled = True"

lemma steps_copy_back:
  "steps env s0 s \<Longrightarrow> result_steps env s0 (copy_back env out i s)"
proof (induction env out i s rule: copy_back.induct)
  case (1 env out i s)
  show ?case
  proof (cases "i < length (arr s)")
    case False
    with "1.prems" show ?thesis by (subst copy_back.simps) simp
  next
    case True
    show ?thesis
    proof (cases "out ! i")
      case None
      with True show ?thesis by (subst copy_back.simps) (simp add: Let_def)
    next
      case (Some v)
      have "steps env s0 (emitSwapping env [i]
          (set_arr ((arr (add_writes 1 (inc_swaps s)))[i := v]) (add_writes 1 (inc_swaps s))))"
        using "1.prems" by (simp add: steps_prim)
      from "1.IH"[OF True refl Some this] True Some show ?thesis
        by (subst copy_back.simps) (simp add: Let_def)
    qed
  qed
qed

lemma steps_countingSort:
  "steps env s0 s \<Longrightarrow> result_steps env s0 (countingSort env ex s)"
  by (simp add: countingSort_def Let_def steps_copy_back split: prod.splits)

lemma steps_radix_loop:
  "steps env s0 s \<Longrightarrow> result_steps env s0 (radix_loop env mx ex s)"
proof (induction env mx ex s rule: radix_loop.induct)
  case (1 env mx ex s)
  show ?case
  proof (cases "mx div ex > 0")
    case False
    with "1.prems" show ?thesis by (subst radix_loop.simps) simp
  next
    case True
    show ?thesis
    proof (cases "countingSort env ex s")
      case (Returned s')
      with steps_countingSort[OF "1.prems", of ex] have "steps env s0 s'" by simp
      from "1.IH"[OF True Returned this] True Returned show ?thesis
        by (subst radix_loop.simps) simp
    next
      case (Threw e s')
      with steps_countingSort[OF "1.prems", of ex] True show ?thesis
        by (subst radix_loop.simps) simp
    next
      case (ThrewTampered u s')
      with steps_countingSort[OF "1.prems", of ex] True show ?thesis
        by (subst radix_loop.simps) simp
    next
      case Unmodelled
      with True show ?thesis by (subst radix_loop.simps) simp
    qed
  qed
qed

lemma steps_radixSortFunc:
  "steps env s0 s \<Longrightarrow> result_steps env s0 (radixSortFunc env s)"
  by (simp add: radixSortFunc_def steps_radix_loop split: option.splits)

lemma steps_distribute:
  "steps env s0 s \<Longrightarrow>
     (case distribute env' mx bc i bs s of
        Returned (bs', s') \<Rightarrow> steps env s0 s'
      | Threw e (bs', s') \<Rightarrow> steps env s0 s'
      | ThrewTampered u (bs', s') \<Rightarrow> steps env s0 s'
      | Unmodelled \<Rightarrow> True)"
proof (induction env' mx bc i bs s rule: distribute.induct)
  case (1 env' mx bc i bs s)
  show ?case
  proof (cases "i < length (arr s)")
    case False
    with "1.prems" show ?thesis by (subst distribute.simps) simp
  next
    case True
    show ?thesis
    proof (cases "bucketIndex env' (arr s ! i) mx bc")
      case None
      with True "1.prems" show ?thesis by (subst distribute.simps) simp
    next
      case (Some b)
      show ?thesis
      proof (cases "0 \<le> b \<and> b < int (length bs)")
        case False
        with True Some "1.prems" show ?thesis by (subst distribute.simps) auto
      next
        case ok: True
        from "1.IH"[OF True Some ok steps_inc_swaps[OF "1.prems"]] True Some ok
        show ?thesis by (subst distribute.simps) simp
      qed
    qed
  qed
qed

lemma steps_copy_bucket:
  "steps env s0 s \<Longrightarrow> steps env s0 (snd (copy_bucket env b j ix s))"
  by (induction env b j ix s rule: copy_bucket.induct)
     (subst copy_bucket.simps, simp add: Let_def steps_prim)

lemma steps_copy_buckets:
  "steps env s0 s \<Longrightarrow> steps env s0 (copy_buckets env bs i ix s)"
proof (induction env bs i ix s rule: copy_buckets.induct)
  case (1 env bs i ix s)
  show ?case
  proof (cases "i < length bs")
    case False
    with "1.prems" show ?thesis by (subst copy_buckets.simps) simp
  next
    case True
    obtain ix' s' where c: "copy_bucket env (bs ! i) 0 ix s = (ix', s')"
      by (cases "copy_bucket env (bs ! i) 0 ix s")
    from steps_copy_bucket[OF "1.prems", of "bs ! i" 0 ix] c have "steps env s0 s'" by simp
    from "1.IH"[OF True c[symmetric] this] True c show ?thesis
      by (subst copy_buckets.simps) simp
  qed
qed

lemma steps_bucketSortFunc:
  assumes "steps env s0 s"
  shows "result_steps env s0 (bucketSortFunc env s)"
proof (cases "length (arr s) \<le> 0")
  case True
  with assms show ?thesis by (simp add: bucketSortFunc_def)
next
  case False
  define mx where "mx = (if math_max (arr s) = 0 then 1 else math_max (arr s))"
  define bc where "bc = nat \<lfloor>roundDouble env (sqrt (real (length (arr s))))\<rfloor>"
  from steps_distribute[OF assms, of env mx bc 0 "replicate bc []"] False
  show ?thesis
    by (auto simp: bucketSortFunc_def Let_def mx_def bc_def steps_copy_buckets
        split: result.splits prod.splits)
qed

lemma steps_isSorted: "steps env s0 s \<Longrightarrow> steps env s0 (snd (isSorted i s))"
  by (induction i s rule: isSorted.induct)
     (subst isSorted.simps, simp add: Let_def steps_prim)

lemma steps_shuffle_loop: "steps env s0 s \<Longrightarrow> steps env s0 (shuffle_loop env k s)"
  by (induction k arbitrary: s) (simp_all add: steps_prim steps.draws Let_def)

lemma steps_shuffle: "steps env s0 s \<Longrightarrow> steps env s0 (shuffle env s)"
  by (simp add: shuffle_def steps_shuffle_loop steps_prim)

lemma steps_bogo_loop_aux:
  assumes "bogo_loop env s = Some s'"
  shows "\<forall>s0. steps env s0 s \<longrightarrow> steps env s0 s'"
  using assms
proof (rule bogo_loop.raw_induct[rotated,
      where P = "\<lambda>env s s'. \<forall>s0. steps env s0 s \<longrightarrow> steps env s0 s'"], goal_cases)
  case (1 loop env s s')
  show ?case
  proof (intro allI impI)
    fix s0 assume st: "steps env s0 s"
    obtain ok s1 where i: "isSorted 0 s = (ok, s1)" by (cases "isSorted 0 s")
    from steps_isSorted[OF st, of 0] i have s1: "steps env s0 s1" by simp
    show "steps env s0 s'"
    proof (cases ok)
      case True
      with 1(2) i s1 show ?thesis by simp
    next
      case False
      with 1(2) i have "loop env (shuffle env s1) = Some s'" by simp
      from 1(1)[OF this] steps_shuffle[OF s1] show ?thesis by blast
    qed
  qed
qed

lemma steps_bogo_loop:
  "bogo_loop env s = Some s' \<Longrightarrow> steps env s0 s \<Longrightarrow> steps env s0 s'"
  using steps_bogo_loop_aux by blast

lemma steps_sortFuncOf:
  assumes "key \<noteq> userCode" and "sortFuncOf env key code s = Some r"
  shows "result_steps env s r"
proof (cases key)
  case bogoSort
  with assms(2) obtain s' where "bogo_loop env s = Some s'" "r = Returned s'"
    by (auto simp: sortFuncOf_def bogoSortFunc_def)
  with steps_bogo_loop[OF this(1) steps.start] show ?thesis by simp
qed (use assms in \<open>auto simp: sortFuncOf_def bubbleSortFunc_def selectionSortFunc_def
      insertionSortFunc_def quickSortFunc_def mergeSortFunc_def heapSortFunc_def Let_def
      intro!: steps_bubble_loop steps_selection_loop steps_insertion_loop steps_quick_sort
        steps_merge_sort steps_heap_extract steps_heap_build steps_radixSortFunc
        steps_bucketSortFunc steps.start\<close>)

subsection \<open>What every sequence of steps preserves\<close>

text \<open>The time spent in a list of pauses.\<close>

definition pausedFor :: "(real \<times> real) list \<Rightarrow> real" where
  "pausedFor ps = sum_list (map (\<lambda>(b, e). e - b) ps)"

lemma pause_pauses:
  "\<exists>ps. pauses (pause env s) = pauses s @ ps
     \<and> pausedTime (pause env s) = pausedTime s + pausedFor ps"
proof (cases "0 < pausePolls env (tick s)")
  case False
  then show ?thesis by (intro exI[of _ "[]"]) (simp add: pause_def pausedFor_def)
next
  case True
  then show ?thesis
    by (intro exI[of _ "[(now env (tick s),
          now env (Suc (tick s) + pausePolls env (tick s)))]"])
       (simp add: pause_def pausedFor_def Let_def readClock_def sleeps_frame split: prod.splits)
qed

lemma update_pauses:
  "\<exists>ps. pauses (update env hl su s) = pauses s @ ps
     \<and> pausedTime (update env hl su s) = pausedTime s + pausedFor ps"
proof -
  define s3 where "s3 = invoke env (Snapshot (snapshots s)) hl (assign su (stats s)) None
      (snd (copyArr (s\<lparr>stats := assign su (stats s)\<rparr>)))"
  have a: "pauses s3 = pauses s" "pausedTime s3 = pausedTime s"
    by (simp_all add: s3_def invoke_def copyArr_def split: prod.splits)
  have u: "pauses (update env hl su s) = pauses (pause env s3)"
    "pausedTime (update env hl su s) = pausedTime (pause env s3)"
    by (simp_all add: update_def Let_def copyArr_def s3_def sleep_def split: prod.splits)
  from pause_pauses[of env s3] show ?thesis unfolding u a .
qed

lemma steps_pauses:
  "steps env s s' \<Longrightarrow>
     \<exists>ps. pauses s' = pauses s @ ps \<and> pausedTime s' = pausedTime s + pausedFor ps"
proof (induction rule: steps.induct)
  case start
  show ?case by (intro exI[of _ "[]"]) (simp add: pausedFor_def)
next
  case (emits s' hl su)
  then obtain ps where ps: "pauses s' = pauses s @ ps"
    "pausedTime s' = pausedTime s + pausedFor ps" by blast
  from update_pauses[of env hl su s'] obtain qs where
    qs: "pauses (update env hl su s') = pauses s' @ qs"
    "pausedTime (update env hl su s') = pausedTime s' + pausedFor qs" by blast
  show ?case
    by (intro exI[of _ "ps @ qs"]) (simp add: ps qs pausedFor_def)
qed simp_all

text \<open>What one \<^verbatim>\<open>update\<close> adds to the record of calls and to the store.\<close>

definition emitted :: "'h env \<Rightarrow> Highlight \<Rightarrow> StatUpdate \<Rightarrow> 'h engine \<Rightarrow> call" where
  "emitted env hl su s =
     \<lparr>c_arr = Snapshot (snapshots s), c_contents = arr s,
      c_left = snd (updateCallback env (arr s) hl (assign su (stats s)) None (host s)),
      c_working = arr s, c_highlights = hl, c_stats = assign su (stats s), c_error = None\<rparr>"

lemma calls_update: "calls (update env hl su s) = calls s @ [emitted env hl su s]"
  by (simp add: update_def copyArr_def invoke_def Let_def sleep_def pause_frame emitted_def
      split: prod.splits)

lemma snapshots_update: "snapshots (update env hl su s) = Suc (snapshots s)"
  by (simp add: update_def copyArr_def invoke_def Let_def sleep_def pause_frame
      split: prod.splits)

lemma heap_update:
  "heap (update env hl su s) = (heap s)(Snapshot (snapshots s) := c_left (emitted env hl su s))"
  by (simp add: update_def copyArr_def invoke_def Let_def sleep_def pause_frame emitted_def
      split: prod.splits)

text \<open>
  The calls made between two states: the \<open>k\<close>-th of them was handed the \<open>k\<close>-th new
  snapshot object, which held the contents of the working array; it reported no error;
  and the object still holds what that call left in it.
\<close>

definition fresh_calls :: "'h engine \<Rightarrow> 'h engine \<Rightarrow> call list \<Rightarrow> bool" where
  "fresh_calls s s' new =
     (calls s' = calls s @ new \<and> snapshots s' = snapshots s + length new
      \<and> list_all (\<lambda>k. c_arr (new ! k) = Snapshot (snapshots s + k)
                      \<and> c_contents (new ! k) = c_working (new ! k)
                      \<and> c_error (new ! k) = None
                      \<and> heap s' (Snapshot (snapshots s + k)) = c_left (new ! k))
           [0..<length new])"

lemma fresh_calls_nil: "fresh_calls s s []"
  by (simp add: fresh_calls_def)

lemma fresh_calls_same:
  "fresh_calls s s' new \<Longrightarrow> calls s'' = calls s' \<Longrightarrow> snapshots s'' = snapshots s'
   \<Longrightarrow> (\<And>j. heap s'' (Snapshot j) = heap s' (Snapshot j)) \<Longrightarrow> fresh_calls s s'' new"
  by (simp add: fresh_calls_def)

lemma fresh_calls_snoc:
  assumes "fresh_calls s s' new"
    and "calls s'' = calls s' @ [c]" and "snapshots s'' = Suc (snapshots s')"
    and "heap s'' = (heap s')(Snapshot (snapshots s') := c_left c)"
    and "c_arr c = Snapshot (snapshots s')" and "c_contents c = c_working c"
    and "c_error c = None"
  shows "fresh_calls s s'' (new @ [c])"
  using assms by (auto simp: fresh_calls_def list_all_iff nth_append)

lemma steps_calls: "steps env s s' \<Longrightarrow> \<exists>new. fresh_calls s s' new"
proof (induction rule: steps.induct)
  case start
  show ?case using fresh_calls_nil by blast
next
  case (writes s' xs)
  then obtain new where "fresh_calls s s' new" by blast
  from fresh_calls_same[OF this, of "set_arr xs s'"] show ?case by auto
next
  case (counts s' st)
  then obtain new where "fresh_calls s s' new" by blast
  from fresh_calls_same[OF this, of "s'\<lparr>stats := st\<rparr>"] show ?case by auto
next
  case (emits s' hl su)
  then obtain new where "fresh_calls s s' new" by blast
  from fresh_calls_snoc[OF this calls_update snapshots_update heap_update]
  show ?case by (auto simp: emitted_def)
next
  case (draws s')
  then obtain new where "fresh_calls s s' new" by blast
  from fresh_calls_same[OF this, of "s'\<lparr>tick := Suc (tick s')\<rparr>"] show ?case by auto
qed

lemma steps_frame:
  "steps env s s' \<Longrightarrow>
     heap s' Initial = heap s Initial \<and> snapshots s \<le> snapshots s'
     \<and> (\<forall>j<snapshots s. heap s' (Snapshot j) = heap s (Snapshot j))"
  by (induction rule: steps.induct) (auto simp: heap_update snapshots_update)

section \<open>Worked examples\<close>

lemma runSort_builtin:
  "key \<noteq> userCode \<Longrightarrow>
     runSort key code env xs s0 =
       Inr (runner env (sortFuncOf env key (case code of None \<Rightarrow> [] | Some c \<Rightarrow> c)) xs s0)"
  by (simp add: runSort_def getAlgorithmRunner_def)

lemma runner_Returned:
  "sortFunc (snd (readClock env (enter xs s0))) = Some (Returned s2) \<Longrightarrow>
     runner env sortFunc xs s0 =
       (let t = now env (tick s2);
            s4 = s2\<lparr>tick := tick s2 + 1,
                    stats := (stats s2)\<lparr>time := t - now env (tick s0) - pausedTime s2\<rparr>\<rparr>;
            s6 = invoke env (Snapshot (snapshots s2)) noHighlights (stats s4) None
                   (snd (copyArr s4))
        in Some (Resolved (Some (stats s4)) s6))"
  by (simp add: runner_def readClock_def enter_def Let_def copyArr_def invoke_def
      split: prod.splits)

lemma runner_Threw:
  "sortFunc (snd (readClock env (enter xs s0))) = Some (Threw e s2) \<Longrightarrow>
     runner env sortFunc xs s0 =
       Some (Resolved None
         (invoke env Initial noHighlights
            ((stats s2)\<lparr>time := now env (tick s2) - now env (tick s0) - pausedTime s2\<rparr>)
            (Some (errorMessageOf e)) (s2\<lparr>tick := tick s2 + 1\<rparr>)))"
  by (simp add: runner_def readClock_def enter_def Let_def errorMessageOf_def
      split: prod.splits js_thrown.splits)

lemma entered:
  "heap (snd (readClock env (enter xs s0))) Initial = xs"
  "arr (snd (readClock env (enter xs s0))) = xs"
  "stats (snd (readClock env (enter xs s0))) = zeroStats"
  "pausedTime (snd (readClock env (enter xs s0))) = 0"
  "pauses (snd (readClock env (enter xs s0))) = pauses s0"
  "calls (snd (readClock env (enter xs s0))) = calls s0"
  "snapshots (snd (readClock env (enter xs s0))) = snapshots s0"
  "tick (snd (readClock env (enter xs s0))) = Suc (tick s0)"
  "\<And>j. heap (snd (readClock env (enter xs s0))) (Snapshot j) = heap s0 (Snapshot j)"
  by (simp_all add: readClock_def enter_def)

lemma bubble_pass_swap:
  "i + 1 < n \<Longrightarrow> arr s ! i > arr s ! (i + 1) \<Longrightarrow>
     bubble_pass env n i sw s =
       bubble_pass env n (i + 1) True
         (emitSwapping env [i, i + 1]
           (swap i (i + 1) (add_writes 2 (inc_swaps
             (emitComparing env [i, i + 1] (inc_comparisons s))))))"
  by (subst bubble_pass.simps) (simp add: Let_def)

lemma bubble_pass_keep:
  "i + 1 < n \<Longrightarrow> \<not> arr s ! i > arr s ! (i + 1) \<Longrightarrow>
     bubble_pass env n i sw s =
       bubble_pass env n (i + 1) sw (emitComparing env [i, i + 1] (inc_comparisons s))"
  by (subst bubble_pass.simps) (simp add: Let_def)

lemma bubble_pass_end: "\<not> i + 1 < n \<Longrightarrow> bubble_pass env n i sw s = (sw, s)"
  by (subst bubble_pass.simps) simp

lemma bubble_5381:
  assumes "arr s = [5, 3, 8, 1]"
  shows "arr (bubbleSortFunc env s) = [1, 3, 5, 8]
     \<and> comparisons (stats (bubbleSortFunc env s)) = comparisons (stats s) + 6
     \<and> swaps (stats (bubbleSortFunc env s)) = swaps (stats s) + 4"
  using assms
  by (simp add: bubbleSortFunc_def bubble_loop.simps bubble_pass_swap bubble_pass_keep
      bubble_pass_end)

lemma bubble_21:
  assumes "arr s = [2, 1]"
  shows "bubbleSortFunc env s =
     emitSwapping env [0, 1] (swap 0 1 (add_writes 2 (inc_swaps
       (emitComparing env [0, 1] (inc_comparisons s)))))"
  using assms
  by (simp add: bubbleSortFunc_def bubble_loop.simps bubble_pass_swap bubble_pass_keep
      bubble_pass_end)

text \<open>
  C5.  Bubble sort on \<open>[5, 3, 8, 1]\<close>: whatever the callback, the clock, the pauses and the
  delays, the run resolves with counters showing 6 comparisons and 4 swaps, and the
  working array is then \<open>[1, 3, 5, 8]\<close>.
\<close>

theorem bubble_sort_example:
  "\<exists>st s'. runSort bubbleSort code env [5, 3, 8, 1] s0 = Inr (Some (Resolved (Some st) s'))
     \<and> arr s' = [1, 3, 5, 8] \<and> comparisons st = 6 \<and> swaps st = 4"
proof -
  define c where "c = (case code of None \<Rightarrow> [] | Some c \<Rightarrow> c)"
  define s1 where "s1 = snd (readClock env (enter [5, 3, 8, 1] s0))"
  have a: "arr s1 = [5, 3, 8, 1]" and z: "stats s1 = zeroStats"
    by (simp_all add: s1_def readClock_def enter_def)
  have f: "sortFuncOf env bubbleSort c (snd (readClock env (enter [5, 3, 8, 1] s0)))
      = Some (Returned (bubbleSortFunc env s1))"
    by (simp add: sortFuncOf_def s1_def)
  have r: "runSort bubbleSort code env [5, 3, 8, 1] s0
      = Inr (runner env (sortFuncOf env bubbleSort c) [5, 3, 8, 1] s0)"
    by (simp add: runSort_builtin c_def)
  show ?thesis
    unfolding r runner_Returned[where sortFunc = "sortFuncOf env bubbleSort c", OF f]
    using bubble_5381[OF a, of env]
    by (simp add: Let_def copyArr_def invoke_def z zeroStats_def split: prod.splits)
qed

lemma isSorted_next:
  "i + 1 < length (arr s) \<Longrightarrow> \<not> arr s ! i > arr s ! (i + 1) \<Longrightarrow>
     isSorted i s = isSorted (i + 1) (inc_comparisons s)"
  by (subst isSorted.simps) (simp add: Let_def)

lemma isSorted_stop:
  "i + 1 < length (arr s) \<Longrightarrow> arr s ! i > arr s ! (i + 1) \<Longrightarrow>
     isSorted i s = (False, inc_comparisons s)"
  by (subst isSorted.simps) (simp add: Let_def)

lemma isSorted_end: "\<not> i + 1 < length (arr s) \<Longrightarrow> isSorted i s = (True, s)"
  by (subst isSorted.simps) simp

lemma bogo_123:
  assumes "arr s = [1, 2, 3]"
  shows "bogoSortFunc env s = Some (inc_comparisons (inc_comparisons s))"
  using assms
  by (simp add: bogoSortFunc_def bogo_loop.simps[of env s] isSorted_next isSorted_end)

text \<open>
  C6.  Bogo sort on \<open>[1, 2, 3]\<close>: the run resolves with 2 comparisons, no swap and no write;
  the only callback invocation of the whole run is the final one, which carries these
  counters and the array \<open>[1, 2, 3]\<close>, and the run consults the environment three times
  (the two clock readings and that callback), so no random number is drawn.  Each
  shuffle pass ends with an emit, so there was none.
\<close>

theorem bogo_sort_example:
  "\<exists>st s' c. runSort bogoSort code env [1, 2, 3] s0 = Inr (Some (Resolved (Some st) s'))
     \<and> swaps st = 0 \<and> comparisons st = 2 \<and> writes st = 0 \<and> arr s' = [1, 2, 3]
     \<and> calls s' = calls s0 @ [c] \<and> c_stats c = st \<and> c_contents c = [1, 2, 3]
     \<and> c_error c = None \<and> tick s' = tick s0 + 3"
proof -
  define c where "c = (case code of None \<Rightarrow> [] | Some c \<Rightarrow> c)"
  define s1 where "s1 = snd (readClock env (enter [1, 2, 3] s0))"
  have a: "arr s1 = [1, 2, 3]" and z: "stats s1 = zeroStats"
    and k: "calls s1 = calls s0" "tick s1 = tick s0 + 1"
    by (simp_all add: s1_def readClock_def enter_def)
  have f: "sortFuncOf env bogoSort c (snd (readClock env (enter [1, 2, 3] s0)))
      = Some (Returned (inc_comparisons (inc_comparisons s1)))"
    using bogo_123[OF a, of env] by (simp add: sortFuncOf_def s1_def)
  have r: "runSort bogoSort code env [1, 2, 3] s0
      = Inr (runner env (sortFuncOf env bogoSort c) [1, 2, 3] s0)"
    by (simp add: runSort_builtin c_def)
  show ?thesis
    unfolding r runner_Returned[where sortFunc = "sortFuncOf env bogoSort c", OF f]
    using a
    by (simp add: Let_def copyArr_def invoke_def z k zeroStats_def split: prod.splits)
qed

text \<open>
  C9.  With the key \<open>userCode\<close> and a missing or empty source text, \<open>getAlgorithmRunner\<close>
  throws and yields no runner, so there is nothing that could copy an array, create
  counters or invoke a callback: \<open>runSort\<close> ends with the thrown error and no engine state.
\<close>

theorem user_code_missing:
  "getAlgorithmRunner userCode None
     = Inl (Error ''User code must be provided for 'userCode' algorithm.'' None)
   \<and> getAlgorithmRunner userCode (Some [])
     = Inl (Error ''User code must be provided for 'userCode' algorithm.'' None)
   \<and> runSort userCode None env xs s0
     = Inl (Error ''User code must be provided for 'userCode' algorithm.'' None)
   \<and> runSort userCode (Some []) env xs s0
     = Inl (Error ''User code must be provided for 'userCode' algorithm.'' None)"
  by (simp add: getAlgorithmRunner_def runSort_def userCodeMissing_def)

section \<open>Failures of user code\<close>







section \<open>Failed runs\<close>

lemma bucket_minus_one:
  "arr s = [- 1] \<Longrightarrow> bucketSortFunc env s = Threw pushOfUndefined s"
  by (simp add: bucketSortFunc_def Let_def math_max_def distribute.simps bucketIndex_def)

text \<open>
  The path the driver is written for.  When the step function throws, in state \<open>s2\<close>
  reached from the entry state by steps of the engine, a value whose message can be read,
  the run resolves without counters, and it has invoked the callback exactly once more.
  That call was handed the caller's own array object, which still holds the input, no
  highlights, the counters as they were at the throw with the time set to the clock
  reading then, minus the reading at the start, minus the time spent in the pauses of
  this run, and the message of the failure.  The callback is taken to follow its contract
  and not to throw.
\<close>

lemma failed_run:
  assumes "sortFunc (snd (readClock env (enter xs s0))) = Some (Threw e s2)"
    and "steps env (snd (readClock env (enter xs s0))) s2"
  shows "\<exists>s' c ps. runner env sortFunc xs s0 = Some (Resolved None s')
     \<and> calls s' = calls s2 @ [c] \<and> pauses s' = pauses s0 @ ps
     \<and> c_arr c = Initial \<and> c_contents c = xs \<and> c_highlights c = noHighlights
     \<and> c_stats c = (stats s2)\<lparr>time := now env (tick s2) - now env (tick s0) - pausedFor ps\<rparr>
     \<and> c_error c = Some (errorMessageOf e)"
proof -
  from steps_pauses[OF assms(2)] obtain ps where
    ps: "pauses s2 = pauses s0 @ ps" "pausedTime s2 = pausedFor ps"
    by (auto simp: entered)
  from steps_frame[OF assms(2)] have i: "heap s2 Initial = xs" by (simp add: entered)
  show ?thesis
    unfolding runner_Threw[where sortFunc = sortFunc, OF assms(1)]
    by (simp add: invoke_def ps i split: prod.splits)
qed

lemma failed_run_bucket:
  "\<exists>s' c ps. runner (idleEnv (EvalYields NotCallable))
         (sortFuncOf (idleEnv (EvalYields NotCallable)) bucketSort []) [- 1] (world ())
       = Some (Resolved None s')
     \<and> calls s' = [c] \<and> pauses s' = ps
     \<and> c_arr c = Initial \<and> c_contents c = [- 1] \<and> c_highlights c = noHighlights
     \<and> c_stats c = zeroStats\<lparr>time := 1 - pausedFor ps\<rparr>
     \<and> c_error c = Some ''Error: Cannot read properties of undefined (reading 'push')''"
proof -
  let ?E = "idleEnv (EvalYields NotCallable)"
  let ?s1 = "snd (readClock ?E (enter [- 1] (world ())))"
  have a: "sortFuncOf ?E bucketSort [] ?s1 = Some (Threw pushOfUndefined ?s1)"
    by (simp add: sortFuncOf_def bucket_minus_one entered)
  from failed_run[where sortFunc = "sortFuncOf ?E bucketSort []", OF a steps.start]
  show ?thesis
    by (simp add: entered world_def idleEnv_def errorMessageOf_def pushOfUndefined_def)
qed

text \<open>
  C4 holds of this path only.  User code can throw an \<^verbatim>\<open>Error\<close> of which reading the message
  throws.  The loader's \<^verbatim>\<open>catch\<close> block reads \<^verbatim>\<open>e.message\<close> and lets the value thrown by that
  read escape; when that value is again such an \<^verbatim>\<open>Error\<close>, the driver's \<^verbatim>\<open>catch\<close> block
  reads its message while it builds the arguments of the callback, and the read throws
  there: the callback is not invoked, and the promise of the run is rejected with the
  value thrown last.  Here the run is on \<open>[3, 1, 2]\<close> with the user function
  \<open>throwsTampered\<close>: no callback is on record at the end, and the run is rejected.
\<close>

theorem tampered_error_rejects:
  "\<exists>s'. runSort userCode (Some ''f'') (idleEnv (EvalYields throwsTampered)) [3, 1, 2] (world ())
       = Inr (Some (Rejected (Inl NonError) s'))
     \<and> calls s' = [] \<and> arr s' = [3, 1, 2]"
  by (simp add: runSort_def getAlgorithmRunner_def runner_def sortFuncOf_def userCodeFunc_def
      idleEnv_def throwsTampered_def readClock_def enter_def world_def Let_def
      split: prod.splits)

section \<open>Elapsed time\<close>

text \<open>
  C7.  When the step function returns in state \<open>s2\<close>, reached from the entry state by
  steps of the engine, the run resolves with counters whose \<open>time\<close> is the clock reading
  at the end minus the reading at the start, minus the time spent in the pauses of this
  run, each pause counted from the reading taken when \<^verbatim>\<open>getIsPaused()\<close> was first seen true
  to the reading taken when it was seen false.  Clock readings are exact numbers here.
\<close>

theorem elapsed_time:
  assumes "sortFunc (snd (readClock env (enter xs s0))) = Some (Returned s2)"
    and "steps env (snd (readClock env (enter xs s0))) s2"
  shows "\<exists>st s' ps. runner env sortFunc xs s0 = Some (Resolved (Some st) s')
     \<and> pauses s' = pauses s0 @ ps
     \<and> time st = (now env (tick s2) - now env (tick s0)) - pausedFor ps"
proof -
  from steps_pauses[OF assms(2)] obtain ps where
    ps: "pauses s2 = pauses s0 @ ps" "pausedTime s2 = pausedFor ps"
    by (auto simp: entered)
  show ?thesis
    unfolding runner_Returned[where sortFunc = sortFunc, OF assms(1)]
    by (simp add: Let_def invoke_def copyArr_def ps split: prod.splits)
qed

theorem elapsed_time_witness:
  "\<exists>st s'. runner pausingEnv (sortFuncOf pausingEnv bubbleSort []) [2, 1] (world ())
       = Some (Resolved (Some st) s')
     \<and> pauses s' = [(20, 60)] \<and> time st = (80 - 0) - pausedFor [(20, 60)]"
proof -
  let ?s1 = "snd (readClock pausingEnv (enter [2, 1] (world ())))"
  let ?s2 = "bubbleSortFunc pausingEnv ?s1"
  have a: "sortFuncOf pausingEnv bubbleSort [] ?s1 = Some (Returned ?s2)"
    by (simp add: sortFuncOf_def)
  have b: "steps pausingEnv ?s1 ?s2"
    by (simp add: bubbleSortFunc_def steps_bubble_loop steps.start)
  have e: "?s2 = emitSwapping pausingEnv [0, 1] (swap 0 1 (add_writes 2 (inc_swaps
       (emitComparing pausingEnv [0, 1] (inc_comparisons ?s1)))))"
    by (rule bubble_21) (simp add: entered)
  have t: "tick ?s2 = 8" and p: "pauses ?s2 = [(20, 60)]"
    unfolding e
    by (simp_all add: update_def pause_def copyArr_def invoke_def enter_def
        readClock_def sleep_def Let_def pausingEnv_def world_def eval_nat_numeral
        split: prod.splits)
  from elapsed_time[where sortFunc = "sortFuncOf pausingEnv bubbleSort []", OF a b]
  obtain st s' ps where r: "runner pausingEnv (sortFuncOf pausingEnv bubbleSort []) [2, 1] (world ())
       = Some (Resolved (Some st) s')" "pauses s' = pauses (world ()) @ ps"
     "time st = (now pausingEnv (tick ?s2) - now pausingEnv (tick (world ()))) - pausedFor ps"
    by blast
  have "pauses s' = pauses ?s2"
    using r(1) unfolding runner_Returned[where sortFunc = "sortFuncOf pausingEnv bubbleSort []", OF a]
    by (auto simp: Let_def invoke_def copyArr_def split: prod.splits)
  with p r(2) have "ps = [(20, 60)]" by (simp add: world_def)
  with r t show ?thesis by (simp add: pausingEnv_def world_def)
qed

section \<open>Snapshots\<close>

text \<open>
  C10.  In a run whose step function returns, every callback invocation, the final one
  included, was handed an array object of its own, allocated for that call and so
  different from the working array, from the caller's array and from the object of
  every other call; on entry it held the contents of the working array; and at the end
  of the run it still holds what that call left in it, whatever the algorithm and the
  later calls did.  The final call saw the final contents of the working array.  No
  \<^verbatim>\<open>update\<close> changes the working array, whatever the callback does to its argument.
\<close>

theorem snapshots_are_copies:
  assumes "sortFunc (snd (readClock env (enter xs s0))) = Some (Returned s2)"
    and "steps env (snd (readClock env (enter xs s0))) s2"
  shows "\<exists>st s' new. runner env sortFunc xs s0 = Some (Resolved (Some st) s')
     \<and> fresh_calls s0 s' new \<and> new \<noteq> [] \<and> c_contents (last new) = arr s2
     \<and> arr s' = arr s2
     \<and> (\<forall>hl su t. arr (update env hl su t) = arr t)"
proof -
  let ?s1 = "snd (readClock env (enter xs s0))"
  from steps_calls[OF assms(2)] obtain new where n: "fresh_calls ?s1 s2 new" by blast
  then have n0: "fresh_calls s0 s2 new"
    by (simp add: fresh_calls_def entered)
  define s4 where "s4 = s2\<lparr>tick := tick s2 + 1,
      stats := (stats s2)\<lparr>time := now env (tick s2) - now env (tick s0) - pausedTime s2\<rparr>\<rparr>"
  define s6 where "s6 = invoke env (Snapshot (snapshots s2)) noHighlights (stats s4) None
      (snd (copyArr s4))"
  define c where "c = last (calls s6)"
  have r: "runner env sortFunc xs s0 = Some (Resolved (Some (stats s4)) s6)"
    unfolding runner_Returned[where sortFunc = sortFunc, OF assms(1)] by (simp add: Let_def s4_def s6_def)
  have c: "calls s6 = calls s2 @ [c]" "snapshots s6 = Suc (snapshots s2)"
    "heap s6 = (heap s2)(Snapshot (snapshots s2) := c_left c)"
    "c_arr c = Snapshot (snapshots s2)" "c_contents c = c_working c" "c_error c = None"
    "c_contents c = arr s2"
    by (simp_all add: c_def s6_def s4_def invoke_def copyArr_def split: prod.splits)
  from fresh_calls_snoc[OF n0 c(1-6)] have "fresh_calls s0 s6 (new @ [c])" .
  moreover have "arr s6 = arr s2" by (simp add: c)
  ultimately show ?thesis using r c(7) by (intro exI[of _ "stats s4"] exI[of _ s6]
        exI[of _ "new @ [c]"]) simp
qed

theorem snapshots_are_copies_witness:
  "\<exists>st s' new. runner scribblingEnv (sortFuncOf scribblingEnv bubbleSort []) [2, 1] (world ())
       = Some (Resolved (Some st) s')
     \<and> fresh_calls (world ()) s' new \<and> new \<noteq> [] \<and> c_contents (last new) = [1, 2]
     \<and> arr s' = [1, 2]"
proof -
  let ?s1 = "snd (readClock scribblingEnv (enter [2, 1] (world ())))"
  let ?s2 = "bubbleSortFunc scribblingEnv ?s1"
  have a: "sortFuncOf scribblingEnv bubbleSort [] ?s1 = Some (Returned ?s2)"
    by (simp add: sortFuncOf_def)
  have b: "steps scribblingEnv ?s1 ?s2"
    by (simp add: bubbleSortFunc_def steps_bubble_loop steps.start)
  have e: "?s2 = emitSwapping scribblingEnv [0, 1] (swap 0 1 (add_writes 2 (inc_swaps
       (emitComparing scribblingEnv [0, 1] (inc_comparisons ?s1)))))"
    by (rule bubble_21) (simp add: entered)
  have "arr ?s2 = [1, 2]" unfolding e by (simp add: entered)
  with snapshots_are_copies[where sortFunc = "sortFuncOf scribblingEnv bubbleSort []", OF a b]
  show ?thesis by auto
qed

section \<open>Cancellation\<close>









section \<open>The variants sort\<close>

text \<open>
  What each step function leaves in the working array, for every array of integers and at
  every state of the engine.
\<close>

subsection \<open>Rearrangements of a range\<close>

text \<open>
  \<open>ys\<close> is \<open>xs\<close> with the cells \<open>lo..<hi\<close> rearranged: the same elements overall, and the
  same cell by cell outside that range.
\<close>

definition rearranged :: "nat \<Rightarrow> nat \<Rightarrow> int list \<Rightarrow> int list \<Rightarrow> bool" where
  "rearranged lo hi xs ys \<longleftrightarrow>
     length ys = length xs \<and> mset ys = mset xs
     \<and> (\<forall>k<length xs. k < lo \<or> hi \<le> k \<longrightarrow> ys ! k = xs ! k)"

lemma rearranged_refl [simp]: "rearranged lo hi xs xs"
  by (simp add: rearranged_def)











subsection \<open>bubbleSortFunc sorts\<close>




subsection \<open>selectionSortFunc sorts\<close>




subsection \<open>insertionSortFunc sorts\<close>






subsection \<open>quickSortFunc sorts\<close>







subsection \<open>mergeSortFunc sorts\<close>

text \<open>The merge of two lists, taking from the left one on a tie, as the loop of \<^verbatim>\<open>merge\<close> does.\<close>

fun merged :: "int list \<Rightarrow> int list \<Rightarrow> int list" where
  "merged (a # as) (b # bs) = (if a \<le> b then a # merged as (b # bs) else b # merged (a # as) bs)"
| "merged [] bs = bs"
| "merged as [] = as"

lemma merged_Nil2 [simp]: "merged as [] = as"
  by (cases as) simp_all












subsection \<open>heapSortFunc sorts\<close>










subsection \<open>radixSortFunc sorts arrays without negative elements\<close>




























subsection \<open>bucketSortFunc sorts when it returns\<close>











subsection \<open>bogoSortFunc sorts when it returns\<close>







subsection \<open>All built-in variants\<close>




end
